theory Spec2Isabelle
  imports Main "HOL-Library.Sublist"
begin

section \<open>Basic types: version ids, errors, decimal formatting\<close>

text \<open>
  \<^verbatim>\<open>type VersionID int64\<close>. Version ids are only ever compared and
  printed, never computed with, so the unbounded \<open>int\<close> is used and no
  wrap-around arises.
\<close>

type_synonym VersionID = int

text \<open>
  Go's \<^verbatim>\<open>fmt.Sprintf("%d", n)\<close>: the decimal digits, most significant first,
  with a leading minus sign for a negative number.
\<close>

fun digits :: "nat \<Rightarrow> string" where
  "digits n = (if n < 10 then [''0123456789'' ! n]
               else digits (n div 10) @ [''0123456789'' ! (n mod 10)])"

declare digits.simps [simp del]

definition fmt_d :: "int \<Rightarrow> string" where
  "fmt_d n = (if n < 0 then CHR ''-'' # digits (nat (- n)) else digits (nat n))"

text \<open>
  \<^verbatim>\<open>type Error struct { Version VersionID; Description string }\<close> is one
  error of the schema definition; \<^verbatim>\<open>Errors\<close> is a list of them.
\<close>

record Error =
  Version :: VersionID
  Description :: string

text \<open>
  Run-time errors of the worker: \<^verbatim>\<open>errors.New\<close> and \<^verbatim>\<open>fmt.Errorf\<close>
  build an error from its text, \<^verbatim>\<open>wrapf(err, format, args...)\<close> builds a
  \<^verbatim>\<open>wrappedError{Message, Err}\<close>.
\<close>

datatype error = New string | wrappedError string error

definition wrapf :: "error \<Rightarrow> string \<Rightarrow> error" where
  "wrapf err msg = wrappedError msg err"

section \<open>Actions and definitions\<close>

text \<open>
  A migration written in Go is a function of the database. The contents of the
  database other than the migrations table are left abstract (\<open>'u\<close>); a Go function
  \<^verbatim>\<open>func(ctx, db) error\<close> becomes a function that returns the error, if
  any, and the contents it leaves behind.
\<close>

type_synonym 'u func = "'u \<Rightarrow> error option \<times> 'u"

text \<open>
  \<^verbatim>\<open>type action struct { sql string; dbFunc ...; txFunc ...; replayUp *VersionID }\<close>
\<close>

record 'u action =
  sql :: string
  dbFunc :: "'u func option"
  txFunc :: "'u func option"
  replayUp :: "VersionID option"

definition zero_action :: "'u action" where
  "zero_action = \<lparr>sql = [], dbFunc = None, txFunc = None, replayUp = None\<rparr>"

text \<open>
  \<^verbatim>\<open>type Action func(*action)\<close>. The type \<^verbatim>\<open>action\<close> is not exported,
  so the only values of \<^verbatim>\<open>Action\<close> a schema author can build are the results of
  the four constructors \<^verbatim>\<open>Command\<close>, \<^verbatim>\<open>DBFunc\<close>, \<^verbatim>\<open>TxFunc\<close>
  and \<^verbatim>\<open>Replay\<close> (and \<^verbatim>\<open>nil\<close>, which is \<open>None\<close> below). Each sets one
  field of the action it is applied to.
\<close>

datatype 'u Action = Command string | DBFunc "'u func" | TxFunc "'u func" | Replay VersionID

fun apply_Action :: "'u Action \<Rightarrow> 'u action \<Rightarrow> 'u action" where
  "apply_Action (Command s) a = a\<lparr>sql := s\<rparr>"
| "apply_Action (DBFunc f) a = a\<lparr>dbFunc := Some f\<rparr>"
| "apply_Action (TxFunc f) a = a\<lparr>txFunc := Some f\<rparr>"
| "apply_Action (Replay i) a = a\<lparr>replayUp := Some i\<rparr>"

text \<open>
  \<^verbatim>\<open>type Definition struct { id; upAction; upCount; downAction; downCount }\<close>.
  The counters are Go \<^verbatim>\<open>int\<close>s counting calls; they are modelled as \<open>nat\<close>.
\<close>

record 'u Definition =
  def_id :: VersionID
  upAction :: "'u Action option"
  upCount :: nat
  downAction :: "'u Action option"
  downCount :: nat

definition newDefinition :: "VersionID \<Rightarrow> 'u Definition" where
  "newDefinition i = \<lparr>def_id = i, upAction = None, upCount = 0, downAction = None, downCount = 0\<rparr>"

definition Definition_UpAction :: "'u Action option \<Rightarrow> 'u Definition \<Rightarrow> 'u Definition" where
  "Definition_UpAction a d = d\<lparr>upCount := upCount d + 1, upAction := a\<rparr>"

definition Definition_Up :: "string \<Rightarrow> 'u Definition \<Rightarrow> 'u Definition" where
  "Definition_Up s d = d\<lparr>upCount := upCount d + 1, upAction := Some (Command s)\<rparr>"

definition Definition_DownAction :: "'u Action option \<Rightarrow> 'u Definition \<Rightarrow> 'u Definition" where
  "Definition_DownAction a d = d\<lparr>downCount := downCount d + 1, downAction := a\<rparr>"

definition Definition_Down :: "string \<Rightarrow> 'u Definition \<Rightarrow> 'u Definition" where
  "Definition_Down s d = d\<lparr>downCount := downCount d + 1, downAction := Some (Command s)\<rparr>"

text \<open>\<^verbatim>\<open>func (d *Definition) errs() Errors\<close>\<close>

definition def_errs :: "'u Definition \<Rightarrow> Error list" where
  "def_errs d =
     (if upCount d = 0 then [\<lparr>Version = def_id d, Description = ''up migration not defined''\<rparr>] else []) @
     (if upCount d > 1 then [\<lparr>Version = def_id d,
        Description = ''up migration defined '' @ fmt_d (int (upCount d)) @ '' times''\<rparr>] else []) @
     (if downCount d = 0 then [\<lparr>Version = def_id d, Description = ''down migration not defined''\<rparr>] else []) @
     (if downCount d > 1 then [\<lparr>Version = def_id d,
        Description = ''down migration defined '' @ fmt_d (int (downCount d)) @ '' times''\<rparr>] else [])"

section \<open>Migration plans and replay resolution\<close>

text \<open>\<^verbatim>\<open>type migrationPlan struct { id; up; down; errs }\<close>\<close>

record 'u migrationPlan =
  plan_id :: VersionID
  up :: "'u action"
  down :: "'u action"
  plan_errs :: "Error list"

text \<open>
  The closure \<^verbatim>\<open>replayUp\<close> of \<^verbatim>\<open>newPlan\<close>: it works on one action of the
  plan under construction and may append an error to the plan. It returns the action
  as it leaves it and the errors it adds.
\<close>

definition replayUp_step ::
  "VersionID \<Rightarrow> (VersionID \<rightharpoonup> 'u migrationPlan) \<Rightarrow> 'u action \<Rightarrow> 'u action \<times> Error list" where
  "replayUp_step pid plans_map a =
     (case replayUp a of
        None \<Rightarrow> (a, [])
      | Some replayID \<Rightarrow>
          if replayID \<ge> pid
          then (a, [\<lparr>Version = pid, Description = ''replay must specify an earlier version''\<rparr>])
          else (case plans_map replayID of
                  None \<Rightarrow> (a, [\<lparr>Version = pid,
                     Description = ''replay refers to unknown version '' @ fmt_d replayID\<rparr>])
                | Some prevPlan \<Rightarrow> (up prevPlan, [])))"

text \<open>\<^verbatim>\<open>func newPlan(def *Definition, plans map[VersionID]*migrationPlan) *migrationPlan\<close>\<close>

definition newPlan :: "'u Definition \<Rightarrow> (VersionID \<rightharpoonup> 'u migrationPlan) \<Rightarrow> 'u migrationPlan" where
  "newPlan d plans_map =
     (let up0 = (case upAction d of None \<Rightarrow> zero_action | Some f \<Rightarrow> apply_Action f zero_action);
          down0 = (case downAction d of None \<Rightarrow> zero_action | Some f \<Rightarrow> apply_Action f zero_action);
          (up1, e1) = replayUp_step (def_id d) plans_map up0;
          (down1, e2) = replayUp_step (def_id d) plans_map down0
      in \<lparr>plan_id = def_id d, up = up1, down = down1, plan_errs = def_errs d @ e1 @ e2\<rparr>)"

section \<open>The schema\<close>

text \<open>
  \<^verbatim>\<open>Schema.Define\<close> hands out a pointer to the definition it creates, and the
  author then calls \<^verbatim>\<open>Up\<close>, \<^verbatim>\<open>Down\<close>, ... through that pointer. The
  definitions therefore live in a store: a list indexed by address, where allocation
  appends. The Go map \<^verbatim>\<open>definitions map[VersionID]*Definition\<close> is an association
  list from ids to addresses; an entry is only ever added for an id that has none, so
  its keys are distinct, and the only iteration over it is followed by a sort of the
  keys. \<^verbatim>\<open>plans\<close> is \<open>None\<close> for the nil slice.
\<close>

type_synonym addr = nat

record 'u Schema =
  MigrationsTable :: string
  definitions :: "(VersionID \<times> addr) list"
  plans :: "'u migrationPlan list option"
  schema_errs :: "Error list"

type_synonym 'u store = "'u Definition list"

definition empty_Schema :: "'u Schema" where
  "empty_Schema = \<lparr>MigrationsTable = [], definitions = [], plans = None, schema_errs = []\<rparr>"

text \<open>\<^verbatim>\<open>func (s *Schema) Define(id VersionID) *Definition\<close>\<close>

definition Define :: "VersionID \<Rightarrow> 'u store \<times> 'u Schema \<Rightarrow> addr \<times> 'u store \<times> 'u Schema" where
  "Define i hs =
     (let h = fst hs; s = snd hs;
          d = length h;
          h' = h @ [newDefinition i];
          s' = (if map_of (definitions s) i \<noteq> None
                then s\<lparr>schema_errs := schema_errs s @ [\<lparr>Version = i, Description = ''defined more than once''\<rparr>]\<rparr>
                else s\<lparr>definitions := definitions s @ [(i, d)]\<rparr>)
      in (d, h', s'\<lparr>plans := None\<rparr>))"

text \<open>A call of a method of \<^verbatim>\<open>*Definition\<close> through the pointer \<open>a\<close>.\<close>

definition through :: "addr \<Rightarrow> ('u Definition \<Rightarrow> 'u Definition) \<Rightarrow> 'u store \<Rightarrow> 'u store" where
  "through a f h = h[a := f (h ! a)]"

text \<open>
  The loop of \<^verbatim>\<open>Schema.complete\<close> over the sorted ids: it appends each new plan to
  the list and enters it in the local map \<^verbatim>\<open>plans\<close>.
\<close>

fun complete_loop ::
  "'u store \<Rightarrow> (VersionID \<times> addr) list \<Rightarrow> VersionID list \<Rightarrow>
   'u migrationPlan list \<times> (VersionID \<rightharpoonup> 'u migrationPlan) \<Rightarrow>
   'u migrationPlan list \<times> (VersionID \<rightharpoonup> 'u migrationPlan)" where
  "complete_loop h defs [] acc = acc"
| "complete_loop h defs (i # ids) (ps, plans_map) =
     (let d = h ! the (map_of defs i);
          p = newPlan d plans_map
      in complete_loop h defs ids (ps @ [p], plans_map(i \<mapsto> p)))"

text \<open>\<^verbatim>\<open>func (s *Schema) complete()\<close>\<close>

definition complete :: "'u store \<Rightarrow> 'u Schema \<Rightarrow> 'u Schema" where
  "complete h s =
     (case plans s of
        Some _ \<Rightarrow> s
      | None \<Rightarrow>
          let ids = sort (map fst (definitions s))
          in s\<lparr>plans := Some (fst (complete_loop h (definitions s) ids ([], Map.empty)))\<rparr>)"

text \<open>
  \<^verbatim>\<open>func (s *Schema) Err() error\<close>: the result is \<open>None\<close> for nil, and the schema
  is returned as \<^verbatim>\<open>complete\<close> leaves it.
\<close>

definition Err :: "'u store \<Rightarrow> 'u Schema \<Rightarrow> Error list option \<times> 'u Schema" where
  "Err h s =
     (let s' = complete h s;
          errs = schema_errs s' @ concat (map plan_errs (the (plans s')))
      in (if length errs > 0 then Some errs else None, s'))"




section \<open>Properties of the plan compiler\<close>

text \<open>
  What \<^verbatim>\<open>Define\<close> maintains: the keys of the definitions map are distinct, no
  two keys share a definition, every address is allocated, and the definition stored
  under an id carries that id.
\<close>

definition wf_schema :: "'u store \<Rightarrow> 'u Schema \<Rightarrow> bool" where
  "wf_schema h s \<longleftrightarrow>
     distinct (map fst (definitions s)) \<and> distinct (map snd (definitions s)) \<and>
     list_all (\<lambda>(i, a). a < length h \<and> def_id (h ! a) = i) (definitions s)"

lemma plan_id_newPlan [simp]: "plan_id (newPlan d pm) = def_id d"
  by (simp add: newPlan_def Let_def split: prod.splits)

lemma replayUp_step_cong:
  "(\<And>t. t < i \<Longrightarrow> pm t = pm' t) \<Longrightarrow> replayUp_step i pm a = replayUp_step i pm' a"
  by (auto simp: replayUp_step_def split: option.splits)

lemma newPlan_cong:
  "(\<And>t. t < def_id d \<Longrightarrow> pm t = pm' t) \<Longrightarrow> newPlan d pm = newPlan d pm'"
  unfolding newPlan_def using replayUp_step_cong [of "def_id d" pm pm'] by presburger

lemma complete_loop_char:
  assumes "sorted ids" "distinct ids"
    and "\<forall>i\<in>set ids. def_id (h ! the (map_of defs i)) = i"
    and "complete_loop h defs ids (ps, pm) = (ps', pm')"
  shows "ps' = ps @ map (\<lambda>i. the (pm' i)) ids \<and>
         (\<forall>i\<in>set ids. pm' i = Some (newPlan (h ! the (map_of defs i)) pm')) \<and>
         (\<forall>t. t \<notin> set ids \<longrightarrow> pm' t = pm t)"
  using assms
proof (induction ids arbitrary: ps pm)
  case Nil
  then show ?case by simp
next
  case (Cons i ids)
  define d where "d = h ! the (map_of defs i)"
  define p where "p = newPlan d pm"
  have rec: "complete_loop h defs ids (ps @ [p], pm(i \<mapsto> p)) = (ps', pm')"
    using Cons.prems(4) by (simp add: d_def p_def Let_def)
  have IH: "ps' = (ps @ [p]) @ map (\<lambda>i. the (pm' i)) ids"
    "\<forall>j\<in>set ids. pm' j = Some (newPlan (h ! the (map_of defs j)) pm')"
    "\<forall>t. t \<notin> set ids \<longrightarrow> pm' t = (pm(i \<mapsto> p)) t"
    using Cons.IH [OF _ _ _ rec] Cons.prems(1-3) by auto
  have i_notin: "i \<notin> set ids" using Cons.prems(2) by simp
  have pi: "pm' i = Some p" using IH(3) i_notin by simp
  have did: "def_id d = i" using Cons.prems(3) by (simp add: d_def)
  have "newPlan d pm = newPlan d pm'"
  proof (rule newPlan_cong)
    fix t assume "t < def_id d"
    then have "t < i" using did by simp
    then have "t \<notin> set ids" "t \<noteq> i" using Cons.prems(1) by auto
    then show "pm t = pm' t" using IH(3) by simp
  qed
  then have pi': "pm' i = Some (newPlan (h ! the (map_of defs i)) pm')"
    using pi by (simp add: p_def d_def)
  show ?case using IH pi pi' by auto
qed


text \<open>
  The two errors that replay resolution can add to a plan both start with the word
  \<open>replay\<close>; none of the errors of \<^verbatim>\<open>Definition.errs\<close> does.
\<close>

definition replay_error :: "Error \<Rightarrow> bool" where
  "replay_error e \<longleftrightarrow> prefix ''replay'' (Description e)"

definition replay_free :: "'u action \<Rightarrow> bool" where
  "replay_free a \<longleftrightarrow> replayUp a = None"

lemma replayUp_step_clean:
  assumes "\<forall>e\<in>set (snd (replayUp_step i pm a)). \<not> replay_error e"
    and "\<And>t q. pm t = Some q \<Longrightarrow> replay_free (up q)"
  shows "replay_free (fst (replayUp_step i pm a))"
  using assms
  by (auto simp: replayUp_step_def replay_error_def replay_free_def split: option.splits if_splits)

lemma newPlan_clean:
  assumes "\<forall>e\<in>set (plan_errs (newPlan d pm)). \<not> replay_error e"
    and "\<And>t q. pm t = Some q \<Longrightarrow> replay_free (up q)"
  shows "replay_free (up (newPlan d pm)) \<and> replay_free (down (newPlan d pm))"
proof -
  obtain u1 e1 where u: "replayUp_step (def_id d) pm
      (case upAction d of None \<Rightarrow> zero_action | Some f \<Rightarrow> apply_Action f zero_action) = (u1, e1)"
    by (cases "replayUp_step (def_id d) pm
      (case upAction d of None \<Rightarrow> zero_action | Some f \<Rightarrow> apply_Action f zero_action)")
  obtain d1 e2 where dn: "replayUp_step (def_id d) pm
      (case downAction d of None \<Rightarrow> zero_action | Some f \<Rightarrow> apply_Action f zero_action) = (d1, e2)"
    by (cases "replayUp_step (def_id d) pm
      (case downAction d of None \<Rightarrow> zero_action | Some f \<Rightarrow> apply_Action f zero_action)")
  have np: "newPlan d pm = \<lparr>plan_id = def_id d, up = u1, down = d1, plan_errs = def_errs d @ e1 @ e2\<rparr>"
    by (simp add: newPlan_def u dn)
  have "\<forall>e\<in>set e1. \<not> replay_error e" "\<forall>e\<in>set e2. \<not> replay_error e"
    using assms(1) by (auto simp: np)
  then have "replay_free u1" "replay_free d1"
    using replayUp_step_clean [of "def_id d" pm _] assms(2) u dn
    by (metis fst_conv snd_conv)+
  then show ?thesis by (simp add: np)
qed

lemma complete_loop_extends:
  "\<exists>new. fst (complete_loop h defs ids (ps, pm)) = ps @ new"
proof (induction ids arbitrary: ps pm)
  case Nil
  then show ?case by simp
next
  case (Cons i ids)
  obtain new where "fst (complete_loop h defs ids
      (ps @ [newPlan (h ! the (map_of defs i)) pm], pm(i \<mapsto> newPlan (h ! the (map_of defs i)) pm))) =
      (ps @ [newPlan (h ! the (map_of defs i)) pm]) @ new"
    using Cons.IH by blast
  then show ?case by (simp add: Let_def)
qed

lemma complete_loop_clean:
  assumes "\<forall>p\<in>set (fst (complete_loop h defs ids (ps, pm))). \<forall>e\<in>set (plan_errs p). \<not> replay_error e"
    and "\<forall>p\<in>set ps. replay_free (up p) \<and> replay_free (down p)"
    and "\<forall>t q. pm t = Some q \<longrightarrow> replay_free (up q)"
  shows "\<forall>p\<in>set (fst (complete_loop h defs ids (ps, pm))). replay_free (up p) \<and> replay_free (down p)"
  using assms
proof (induction ids arbitrary: ps pm)
  case Nil
  then show ?case by simp
next
  case (Cons i ids)
  define p where "p = newPlan (h ! the (map_of defs i)) pm"
  have step: "complete_loop h defs (i # ids) (ps, pm) = complete_loop h defs ids (ps @ [p], pm(i \<mapsto> p))"
    by (simp add: p_def Let_def)
  obtain new where new: "fst (complete_loop h defs ids (ps @ [p], pm(i \<mapsto> p))) = (ps @ [p]) @ new"
    using complete_loop_extends by blast
  have "p \<in> set (fst (complete_loop h defs (i # ids) (ps, pm)))"
    unfolding step new by simp
  then have "\<forall>e\<in>set (plan_errs p). \<not> replay_error e"
    using Cons.prems(1) by blast
  then have clean_p: "replay_free (up p) \<and> replay_free (down p)"
    unfolding p_def using newPlan_clean Cons.prems(3) by blast
  have "\<forall>p\<in>set (fst (complete_loop h defs ids (ps @ [p], pm(i \<mapsto> p)))).
          replay_free (up p) \<and> replay_free (down p)"
  proof (rule Cons.IH)
    show "\<forall>q\<in>set (fst (complete_loop h defs ids (ps @ [p], pm(i \<mapsto> p)))).
            \<forall>e\<in>set (plan_errs q). \<not> replay_error e"
      using Cons.prems(1) unfolding step .
    show "\<forall>q\<in>set (ps @ [p]). replay_free (up q) \<and> replay_free (down q)"
      using Cons.prems(2) clean_p by auto
    show "\<forall>t q. (pm(i \<mapsto> p)) t = Some q \<longrightarrow> replay_free (up q)"
      using Cons.prems(3) clean_p by auto
  qed
  then show ?case unfolding step .
qed

lemma newPlan_replays_up:
  assumes "upAction d = Some (Replay t)" "t < def_id d" "pm t = Some q"
  shows "up (newPlan d pm) = up q"
  using assms by (simp add: newPlan_def replayUp_step_def zero_action_def Let_def split: prod.splits)

lemma newPlan_replays_down:
  assumes "downAction d = Some (Replay t)" "t < def_id d" "pm t = Some q"
  shows "down (newPlan d pm) = up q"
  using assms by (simp add: newPlan_def replayUp_step_def zero_action_def Let_def split: prod.splits)


text \<open>\<^verbatim>\<open>s.definitions[id]\<close>, dereferenced.\<close>

definition definition_of :: "'u store \<Rightarrow> 'u Schema \<Rightarrow> VersionID \<Rightarrow> 'u Definition" where
  "definition_of h s i = h ! the (map_of (definitions s) i)"

text \<open>
  A statement \<^verbatim>\<open>s.Define(i).Up(...).Down(...)\<close>: the methods are called
  through the pointer that \<^verbatim>\<open>Define\<close> returns.
\<close>

definition on_def :: "addr \<times> 'u store \<times> 'u Schema \<Rightarrow> ('u Definition \<Rightarrow> 'u Definition) \<Rightarrow> 'u store \<times> 'u Schema" where
  "on_def r f = (through (fst r) f (fst (snd r)), snd (snd r))"

text \<open>
  The chain of \<^verbatim>\<open>TestSchemaReplay\<close>: version 3 replays version 1, version 5
  replays version 3.
\<close>

definition chain_example :: "unit store \<times> unit Schema" where
  "chain_example =
     on_def (Define 5
       (on_def (Define 3
         (on_def (Define 1 ([], empty_Schema))
            (Definition_Down ''drop view v1;'' \<circ> Definition_Up ''create view v1;'')))
          (Definition_Down ''drop view v1;'' \<circ> Definition_UpAction (Some (Replay 1)))))
        (Definition_Down ''drop view v1;'' \<circ> Definition_UpAction (Some (Replay 3)))"

lemma wf_schema_def_id:
  assumes "wf_schema h s" "i \<in> set (map fst (definitions s))"
  shows "def_id (definition_of h s i) = i"
proof -
  obtain a where a: "(i, a) \<in> set (definitions s)" using assms(2) by auto
  then have "map_of (definitions s) i = Some a"
    using assms(1) by (simp add: wf_schema_def)
  moreover have "def_id (h ! a) = i"
    using assms(1) a by (auto simp: wf_schema_def list_all_iff)
  ultimately show ?thesis by (simp add: definition_of_def)
qed

text \<open>
  Claim C1. Take a schema that is compiled afresh and whose plans carry no replay
  error. Then there is one plan per defined id, in ascending order of id; no plan's up
  or down action carries a replay tag; and where the definition of a plan \<open>p\<close> gives
  \<^verbatim>\<open>Replay(t)\<close> as its up (or down) action, for the id \<open>t\<close> of an earlier plan
  \<open>q\<close>, the up (or down) action of \<open>p\<close> is the resolved up action of \<open>q\<close>, copied
  whole. Chains of replays therefore end in the content of their root.
\<close>

theorem replay_resolved_at_compile:
  assumes wf: "wf_schema h s" and fresh: "plans s = None"
    and ps: "plans (complete h s) = Some ps"
    and clean: "\<forall>p\<in>set ps. \<forall>e\<in>set (plan_errs p). \<not> replay_error e"
  shows "map plan_id ps = sort (map fst (definitions s)) \<and>
         (\<forall>p\<in>set ps. replay_free (up p) \<and> replay_free (down p)) \<and>
         (\<forall>p\<in>set ps. \<forall>q\<in>set ps. plan_id q < plan_id p \<longrightarrow>
            (upAction (definition_of h s (plan_id p)) = Some (Replay (plan_id q)) \<longrightarrow> up p = up q) \<and>
            (downAction (definition_of h s (plan_id p)) = Some (Replay (plan_id q)) \<longrightarrow> down p = up q))"
proof -
  define ids where "ids = sort (map fst (definitions s))"
  obtain pm' where loop: "complete_loop h (definitions s) ids ([], Map.empty) = (ps, pm')"
    using ps fresh by (cases "complete_loop h (definitions s) ids ([], Map.empty)")
      (simp add: complete_def ids_def Let_def)
  have sorted: "sorted ids" and dist: "distinct ids"
    using wf by (simp_all add: ids_def wf_schema_def)
  have ids_def_id: "\<forall>i\<in>set ids. def_id (h ! the (map_of (definitions s) i)) = i"
    using wf_schema_def_id [OF wf] by (simp add: ids_def definition_of_def)
  have char: "ps = map (\<lambda>i. the (pm' i)) ids"
    "\<forall>i\<in>set ids. pm' i = Some (newPlan (h ! the (map_of (definitions s) i)) pm')"
    using complete_loop_char [OF sorted dist ids_def_id loop] by simp_all
  have in_ps: "pm' (plan_id p) = Some p \<and> p = newPlan (definition_of h s (plan_id p)) pm'"
    if "p \<in> set ps" for p
  proof -
    have "p \<in> (\<lambda>i. the (pm' i)) ` set ids" using that char(1) by (metis set_map)
    then obtain i where i: "i \<in> set ids" "p = the (pm' i)" by blast
    then have "pm' i = Some p" "p = newPlan (h ! the (map_of (definitions s) i)) pm'"
      using char(2) by auto
    moreover have "plan_id p = i" using calculation(2) ids_def_id i(1) by simp
    ultimately show ?thesis by (simp add: definition_of_def)
  qed
  have ids: "map plan_id ps = ids"
  proof -
    have "plan_id (the (pm' i)) = i" if "i \<in> set ids" for i
      using char(2) ids_def_id that by simp
    then show ?thesis unfolding char(1) by (simp add: map_idI)
  qed
  have free: "\<forall>p\<in>set ps. replay_free (up p) \<and> replay_free (down p)"
    using complete_loop_clean [of h "definitions s" ids "[]" Map.empty] clean loop by simp
  have copy: "(upAction (definition_of h s (plan_id p)) = Some (Replay (plan_id q)) \<longrightarrow> up p = up q) \<and>
     (downAction (definition_of h s (plan_id p)) = Some (Replay (plan_id q)) \<longrightarrow> down p = up q)"
    if "p \<in> set ps" "q \<in> set ps" "plan_id q < plan_id p" for p q
  proof -
    let ?d = "definition_of h s (plan_id p)"
    have p: "p = newPlan ?d pm'" and q: "pm' (plan_id q) = Some q"
      using in_ps that by auto
    have lt: "plan_id q < def_id ?d"
      using that(3) p by (metis plan_id_newPlan)
    show ?thesis
      using newPlan_replays_up [of ?d "plan_id q" pm' q] newPlan_replays_down [of ?d "plan_id q" pm' q]
        lt q p by metis
  qed
  show ?thesis using ids free copy unfolding ids_def by blast
qed



lemma chain_example_eval:
  "chain_example =
    ([\<lparr>def_id = 1, upAction = Some (Command ''create view v1;''), upCount = 1,
         downAction = Some (Command ''drop view v1;''), downCount = 1\<rparr>,
      \<lparr>def_id = 3, upAction = Some (Replay 1), upCount = 1,
         downAction = Some (Command ''drop view v1;''), downCount = 1\<rparr>,
      \<lparr>def_id = 5, upAction = Some (Replay 3), upCount = 1,
         downAction = Some (Command ''drop view v1;''), downCount = 1\<rparr>],
     \<lparr>MigrationsTable = [], definitions = [(1, 0), (3, 1), (5, 2)], plans = None, schema_errs = []\<rparr>)"
  by (simp add: chain_example_def on_def_def Define_def through_def empty_Schema_def newDefinition_def
     Definition_Down_def Definition_Up_def Definition_UpAction_def Let_def)

lemma chain_example_plans:
  "plans (complete (fst chain_example) (snd chain_example)) = Some
     [\<lparr>plan_id = 1, up = \<lparr>sql = ''create view v1;'', dbFunc = None, txFunc = None, replayUp = None\<rparr>,
        down = \<lparr>sql = ''drop view v1;'', dbFunc = None, txFunc = None, replayUp = None\<rparr>, plan_errs = []\<rparr>,
      \<lparr>plan_id = 3, up = \<lparr>sql = ''create view v1;'', dbFunc = None, txFunc = None, replayUp = None\<rparr>,
        down = \<lparr>sql = ''drop view v1;'', dbFunc = None, txFunc = None, replayUp = None\<rparr>, plan_errs = []\<rparr>,
      \<lparr>plan_id = 5, up = \<lparr>sql = ''create view v1;'', dbFunc = None, txFunc = None, replayUp = None\<rparr>,
        down = \<lparr>sql = ''drop view v1;'', dbFunc = None, txFunc = None, replayUp = None\<rparr>, plan_errs = []\<rparr>]"
  by (simp add: chain_example_eval complete_def newPlan_def replayUp_step_def zero_action_def
      def_errs_def Let_def)

text \<open>
  On the chain 5 \<rightarrow> 3 \<rightarrow> 1 the theorem gives that the up action of the third plan is the
  up action of the first, the command of version 1.
\<close>

theorem replay_resolved_at_compile_witness:
  "wf_schema (fst chain_example) (snd chain_example) \<and> plans (snd chain_example) = None \<and>
   map plan_id (the (plans (complete (fst chain_example) (snd chain_example)))) = [1, 3, 5] \<and>
   up (the (plans (complete (fst chain_example) (snd chain_example))) ! 2) =
     up (the (plans (complete (fst chain_example) (snd chain_example))) ! 0) \<and>
   replay_free (up (the (plans (complete (fst chain_example) (snd chain_example))) ! 2)) \<and>
   sql (up (the (plans (complete (fst chain_example) (snd chain_example))) ! 2)) = ''create view v1;''"
proof -
  let ?h = "fst chain_example" and ?s = "snd chain_example"
  let ?ps = "the (plans (complete ?h ?s))"
  have wf: "wf_schema ?h ?s" by (simp add: chain_example_eval wf_schema_def)
  have fresh: "plans ?s = None" by (simp add: chain_example_eval)
  have ps: "plans (complete ?h ?s) = Some ?ps" by (simp add: chain_example_plans)
  have clean: "\<forall>p\<in>set ?ps. \<forall>e\<in>set (plan_errs p). \<not> replay_error e"
    by (simp add: chain_example_plans)
  have d5: "upAction (definition_of ?h ?s 5) = Some (Replay 3)"
    and d3: "upAction (definition_of ?h ?s 3) = Some (Replay 1)"
    by (simp_all add: chain_example_eval definition_of_def)
  note main = replay_resolved_at_compile [OF wf fresh ps clean]
  have ids: "map plan_id ?ps = [1, 3, 5]"
    using main by (simp add: chain_example_eval)
  have len: "length ?ps = 3" using ids by (metis length_map length_Cons list.size(3) numeral_3_eq_3)
  have mem: "?ps ! 0 \<in> set ?ps" "?ps ! 1 \<in> set ?ps" "?ps ! 2 \<in> set ?ps"
    using len by simp_all
  have pid: "plan_id (?ps ! 0) = 1" "plan_id (?ps ! 1) = 3" "plan_id (?ps ! 2) = 5"
    using ids len by (metis nth_map nth_Cons_0 zero_less_numeral numeral_3_eq_3 zero_less_Suc,
       simp add: chain_example_plans, simp add: chain_example_plans)
  have "up (?ps ! 2) = up (?ps ! 1)" using main mem pid d5 by simp
  moreover have "up (?ps ! 1) = up (?ps ! 0)" using main mem pid d3 by simp
  moreover have "replay_free (up (?ps ! 2))" using main mem by blast
  moreover have "sql (up (?ps ! 0)) = ''create view v1;''" by (simp add: chain_example_plans)
  ultimately show ?thesis using wf fresh ids by simp
qed


lemma wf_schema_empty: "wf_schema [] empty_Schema"
  by (simp add: wf_schema_def empty_Schema_def)

lemma wf_schema_Define:
  assumes "wf_schema h s" "Define i (h, s) = (a, h', s')"
  shows "wf_schema h' s'"
proof -
  have in_range: "\<forall>(j, b)\<in>set (definitions s). b < length h \<and> def_id (h ! b) = j"
    using assms(1) by (simp add: wf_schema_def list_all_iff)
  then have "length h \<notin> snd ` set (definitions s)" by fastforce
  moreover have "map_of (definitions s) i = None \<Longrightarrow> i \<notin> fst ` set (definitions s)"
    by (simp add: map_of_eq_None_iff)
  moreover have "\<forall>(j, b)\<in>set (definitions s). b < Suc (length h) \<and> def_id ((h @ [newDefinition i]) ! b) = j"
    using in_range by (fastforce simp: nth_append)
  ultimately show ?thesis
    using assms by (auto simp: wf_schema_def Define_def Let_def list_all_iff newDefinition_def
        split: if_splits)
qed

lemma wf_schema_through:
  assumes "wf_schema h s" "\<And>d. def_id (f d) = def_id d"
  shows "wf_schema (through a f h) s"
proof -
  have "def_id (h[a := f (h ! a)] ! b) = def_id (h ! b)" for b
    by (cases "a < length h") (auto simp: nth_list_update assms(2) list_update_beyond)
  then show ?thesis
    using assms(1) by (auto simp: wf_schema_def through_def list_all_iff)
qed

lemma complete_loop_store_cong:
  assumes "\<forall>i\<in>set ids. h ! the (map_of defs i) = h2 ! the (map_of defs i)"
  shows "complete_loop h defs ids acc = complete_loop h2 defs ids acc"
  using assms
proof (induction ids arbitrary: acc)
  case Nil
  then show ?case by simp
next
  case (Cons i ids)
  obtain ps pm where acc: "acc = (ps, pm)" by (cases acc)
  show ?case using Cons by (simp add: acc Let_def)
qed

lemma complete_store_cong:
  assumes "\<forall>(i, b)\<in>set (definitions s). h ! b = h2 ! b" "distinct (map fst (definitions s))"
  shows "complete h s = complete h2 s"
proof -
  have "h ! the (map_of (definitions s) i) = h2 ! the (map_of (definitions s) i)"
    if mem: "i \<in> set (map fst (definitions s))" for i
  proof -
    obtain b where b: "(i, b) \<in> set (definitions s)" using mem by force
    then have "map_of (definitions s) i = Some b" using assms(2) by simp
    then show ?thesis using assms(1) b by auto
  qed
  then have "complete_loop h (definitions s) (sort (map fst (definitions s))) ([], Map.empty) =
     complete_loop h2 (definitions s) (sort (map fst (definitions s))) ([], Map.empty)"
    by (intro complete_loop_store_cong) simp
  then show ?thesis by (simp add: complete_def Let_def split: option.splits)
qed

section \<open>Defining an id twice\<close>

definition duplicate_error :: "VersionID \<Rightarrow> Error" where
  "duplicate_error i = \<lparr>Version = i, Description = ''defined more than once''\<rparr>"

text \<open>
  Claim C10. When the id \<open>i\<close> is already registered (at address \<open>r\<close>), the call
  \<^verbatim>\<open>Define(i)\<close> appends the one error "defined more than once" for \<open>i\<close>, leaves
  the definitions map and the registered definition as they were, and returns a fresh
  address \<open>a\<close> holding a new definition that is not in the map. Whatever is then done
  to the definition at \<open>a\<close> (any \<open>f\<close>, so any sequence of calls of \<^verbatim>\<open>Up\<close>,
  \<^verbatim>\<open>Down\<close>, \<^verbatim>\<open>UpAction\<close>, \<^verbatim>\<open>DownAction\<close>), the compiled plans are those
  of the definitions registered before, and \<^verbatim>\<open>Err()\<close> reports the earlier schema
  errors, the duplicate error and the errors of those plans.
\<close>

theorem Define_twice_detached:
  assumes wf: "wf_schema h s" and registered: "map_of (definitions s) i = Some r"
    and call: "Define i (h, s) = (a, h', s')"
  shows "schema_errs s' = schema_errs s @ [duplicate_error i] \<and>
         definitions s' = definitions s \<and> h' ! r = h ! r \<and>
         a = length h \<and> h' ! a = newDefinition i \<and> a \<notin> snd ` set (definitions s') \<and>
         wf_schema h' s' \<and> plans s' = None \<and>
         complete (through a f h') s' = complete h (s'\<lparr>plans := None\<rparr>) \<and>
         fst (Err (through a f h') s') =
           Some (schema_errs s @ [duplicate_error i] @
                 concat (map plan_errs (the (plans (complete h (s\<lparr>plans := None\<rparr>))))))"
proof -
  have s': "s' = s\<lparr>schema_errs := schema_errs s @ [duplicate_error i], plans := None\<rparr>"
    and h': "h' = h @ [newDefinition i]" and a: "a = length h"
    using call registered by (auto simp: Define_def Let_def duplicate_error_def)
  have in_range: "\<forall>(j, b)\<in>set (definitions s). b < length h"
    using wf by (auto simp: wf_schema_def list_all_iff)
  have r: "r < length h" using in_range map_of_SomeD [OF registered] by auto
  have detached: "a \<notin> snd ` set (definitions s')" using in_range by (fastforce simp: s' a)
  have same: "\<forall>(j, b)\<in>set (definitions s'). through a f h' ! b = h ! b"
    using in_range by (auto simp: s' a h' through_def nth_append)
  have dist: "distinct (map fst (definitions s'))" using wf by (simp add: s' wf_schema_def)
  have comp: "complete (through a f h') s' = complete h s'"
    using complete_store_cong [OF same dist] .
  have plans_eq: "plans (complete h s') = plans (complete h (s\<lparr>plans := None\<rparr>))"
    by (simp add: complete_def s')
  have errs_eq: "schema_errs (complete h s') = schema_errs s @ [duplicate_error i]"
    by (simp add: complete_def s')
  have "fst (Err (through a f h') s') =
           Some (schema_errs s @ [duplicate_error i] @
                 concat (map plan_errs (the (plans (complete h (s\<lparr>plans := None\<rparr>))))))"
    unfolding Err_def comp by (simp add: Let_def plans_eq errs_eq)
  moreover have "wf_schema h' s'" using wf_schema_Define [OF wf call] .
  moreover have "complete h s' = complete h (s'\<lparr>plans := None\<rparr>)" by (simp add: s')
  ultimately show ?thesis using comp detached r by (simp add: s' h' a nth_append)
qed

text \<open>The second case of \<^verbatim>\<open>TestSchemaErrors\<close>: version 1 defined twice.\<close>

definition duplicate_example :: "unit store \<times> unit Schema" where
  "duplicate_example =
     on_def (Define 1 ([], empty_Schema))
       (Definition_Down ''drop table t1;'' \<circ> Definition_Up ''create table t1(id int primary key, name text;'')"

lemma duplicate_example_eval:
  "duplicate_example =
     ([\<lparr>def_id = 1, upAction = Some (Command ''create table t1(id int primary key, name text;''), upCount = 1,
          downAction = Some (Command ''drop table t1;''), downCount = 1\<rparr>],
      \<lparr>MigrationsTable = [], definitions = [(1, 0)], plans = None, schema_errs = []\<rparr>)"
  by (simp add: duplicate_example_def on_def_def Define_def through_def empty_Schema_def newDefinition_def
     Definition_Down_def Definition_Up_def Let_def)

theorem Define_twice_detached_witness:
  "map_of (definitions (snd duplicate_example)) 1 = Some 0 \<and>
   fst (Define 1 duplicate_example) = 1 \<and>
   fst (Err (through 1 (Definition_Up ''create table t2(id int);'') (fst (snd (Define 1 duplicate_example))))
          (snd (snd (Define 1 duplicate_example)))) =
     Some [\<lparr>Version = 1, Description = ''defined more than once''\<rparr>]"
proof -
  let ?h = "fst duplicate_example" and ?s = "snd duplicate_example"
  obtain a h' s' where d: "Define 1 (?h, ?s) = (a, h', s')"
    by (cases "Define 1 (?h, ?s)")
  have wf: "wf_schema ?h ?s" by (simp add: duplicate_example_eval wf_schema_def)
  have reg: "map_of (definitions ?s) 1 = Some 0" by (simp add: duplicate_example_eval)
  have plans0: "concat (map plan_errs (the (plans (complete ?h (?s\<lparr>plans := None\<rparr>))))) = []"
    by (simp add: duplicate_example_eval complete_def newPlan_def replayUp_step_def zero_action_def
        def_errs_def Let_def)
  note main = Define_twice_detached [OF wf reg d, of "Definition_Up ''create table t2(id int);''"]
  have "a = 1" using main by (simp add: duplicate_example_eval)
  moreover have E: "fst (Err (through a (Definition_Up ''create table t2(id int);'') h') s') =
     Some (schema_errs ?s @ [duplicate_error 1] @
           concat (map plan_errs (the (plans (complete ?h (?s\<lparr>plans := None\<rparr>))))))"
    using main by blast
  have "fst (Err (through a (Definition_Up ''create table t2(id int);'') h') s') =
     Some [\<lparr>Version = 1, Description = ''defined more than once''\<rparr>]"
    unfolding E plans0 by (simp add: duplicate_example_eval duplicate_error_def)
  ultimately show ?thesis using reg d by simp
qed


section \<open>Time values and the forgiving scanner\<close>

text \<open>
  A \<^verbatim>\<open>time.Time\<close> is an instant (seconds since the Unix epoch and nanoseconds
  within the second) together with the offset of its location east of UTC, in
  seconds. \<^verbatim>\<open>time.Unix(v, 0).UTC()\<close> is \<open>Unix_UTC v\<close>.
\<close>

record time =
  sec :: int
  nsec :: int
  zone :: int

definition Unix_UTC :: "int \<Rightarrow> time" where
  "Unix_UTC v = \<lparr>sec = v, nsec = 0, zone = 0\<rparr>"

definition time_le :: "time \<Rightarrow> time \<Rightarrow> bool" where
  "time_le a b \<longleftrightarrow> sec a < sec b \<or> (sec a = sec b \<and> nsec a \<le> nsec b)"

text \<open>
  The dynamic type of the \<^verbatim>\<open>interface{}\<close> handed to \<^verbatim>\<open>Scan\<close>: nil, a
  \<^verbatim>\<open>time.Time\<close>, a \<^verbatim>\<open>string\<close>, an \<^verbatim>\<open>int64\<close>, or a value of any other
  type (the \<^verbatim>\<open>switch\<close> has no case for it).
\<close>

datatype src = Nil | TimeValue time | StringValue string | Int64Value int | OtherValue

definition RFC3339 :: string where
  "RFC3339 = ''2006-01-02T15:04:05Z07:00''"

definition RFC3339Nano :: string where
  "RFC3339Nano = ''2006-01-02T15:04:05.999999999Z07:00''"

definition scan_formats :: "string list" where
  "scan_formats = [''2006-01-02 15:04:05Z07:00'', RFC3339, RFC3339Nano]"

text \<open>
  The loop over the formats. \<^verbatim>\<open>time.Parse(layout, value)\<close> belongs to the Go
  library, not to this repository; it is the parameter \<open>parse\<close>, with \<open>None\<close> for an
  error.
\<close>

fun try_formats :: "(string \<Rightarrow> string \<Rightarrow> time option) \<Rightarrow> string list \<Rightarrow> string \<Rightarrow> time option" where
  "try_formats parse [] v = None"
| "try_formats parse (format # formats) v =
     (case parse format v of Some tm \<Rightarrow> Some tm | None \<Rightarrow> try_formats parse formats v)"

text \<open>
  \<^verbatim>\<open>func (tv *timeVal) Scan(src interface{}) error\<close>: the error returned and the
  time stored in \<^verbatim>\<open>tv.Time\<close>.
\<close>

fun Scan :: "(string \<Rightarrow> string \<Rightarrow> time option) \<Rightarrow> src \<Rightarrow> error option \<times> time" where
  "Scan parse Nil = (None, Unix_UTC 0)"
| "Scan parse (TimeValue v) = (None, v)"
| "Scan parse (StringValue v) =
     (case try_formats parse scan_formats v of
        Some tm \<Rightarrow> (None, tm)
      | None \<Rightarrow> (None, Unix_UTC 0))"
| "Scan parse (Int64Value v) = (None, Unix_UTC v)"
| "Scan parse OtherValue = (None, Unix_UTC 0)"

section \<open>The migrations table and the driver\<close>

text \<open>\<^verbatim>\<open>type Version struct { ID; AppliedAt *time.Time; Failed; Locked; Up; Down }\<close>\<close>

record Version =
  ID :: VersionID
  AppliedAt :: "time option"
  Failed :: bool
  Locked :: bool
  Up :: string
  Down :: string

text \<open>
  A row of the migrations table, with the columns \<^verbatim>\<open>id\<close>, \<^verbatim>\<open>applied_at\<close>,
  \<^verbatim>\<open>failed\<close>, \<^verbatim>\<open>locked\<close> that \<^verbatim>\<open>CreateMigrationsTable\<close> creates. The
  column \<^verbatim>\<open>applied_at\<close> holds the time that was inserted, and a query gives it
  back as it was stored.
\<close>

record row =
  row_id :: VersionID
  applied_at :: time
  failed :: bool
  locked :: bool

text \<open>
  The table is the list of its rows, in the order of insertion. The column
  \<^verbatim>\<open>id\<close> is its primary key, so an insert of an id that is present fails. The
  statements of the driver are modelled by their SQL meaning on this list; the only
  failure of the database that the model knows is that of the primary key (a lost
  connection, a failing \<^verbatim>\<open>BeginTx\<close> or \<^verbatim>\<open>Commit\<close> are not modelled).
\<close>

definition row_ids :: "row list \<Rightarrow> VersionID list" where
  "row_ids t = map row_id t"

text \<open>
  \<^verbatim>\<open>commonInsertVersion\<close>: \<^verbatim>\<open>insert into T(id,applied_at,failed,locked) values(...)\<close>.
  It dereferences \<^verbatim>\<open>ver.AppliedAt\<close>, so a nil pointer there is a failure too.
\<close>

definition InsertVersion :: "Version \<Rightarrow> row list \<Rightarrow> error + row list" where
  "InsertVersion ver t =
     (case AppliedAt ver of
        None \<Rightarrow> Inl (New ''invalid memory address or nil pointer dereference'')
      | Some at \<Rightarrow>
          if ID ver \<in> set (row_ids t)
          then Inl (wrapf (New ''duplicate key'') (''cannot insert migration version '' @ fmt_d (ID ver)))
          else Inr (t @ [\<lparr>row_id = ID ver, applied_at = at, failed = Failed ver, locked = Locked ver\<rparr>]))"

text \<open>\<^verbatim>\<open>commonDeleteVersion\<close>: \<^verbatim>\<open>delete from T where id = ?\<close>\<close>

definition DeleteVersion :: "VersionID \<Rightarrow> row list \<Rightarrow> row list" where
  "DeleteVersion i t = filter (\<lambda>r. row_id r \<noteq> i) t"

text \<open>\<^verbatim>\<open>commonSetBool\<close>: \<^verbatim>\<open>update T set failed = ? where id = ?\<close>, and the same for \<^verbatim>\<open>locked\<close>.\<close>

definition SetVersionFailed :: "VersionID \<Rightarrow> bool \<Rightarrow> row list \<Rightarrow> row list" where
  "SetVersionFailed i b t = map (\<lambda>r. if row_id r = i then r\<lparr>failed := b\<rparr> else r) t"

definition SetVersionLocked :: "VersionID \<Rightarrow> bool \<Rightarrow> row list \<Rightarrow> row list" where
  "SetVersionLocked i b t = map (\<lambda>r. if row_id r = i then r\<lparr>locked := b\<rparr> else r) t"

text \<open>
  \<^verbatim>\<open>commonListVersions\<close>: \<^verbatim>\<open>select id,applied_at,failed,locked from T order by id\<close>,
  each row scanned into a \<^verbatim>\<open>Version\<close> whose \<^verbatim>\<open>Up\<close> and \<^verbatim>\<open>Down\<close> are empty.
\<close>

definition row_Version :: "row \<Rightarrow> Version" where
  "row_Version r = \<lparr>ID = row_id r, AppliedAt = Some (applied_at r), Failed = failed r,
                    Locked = locked r, Up = [], Down = []\<rparr>"

definition ListVersions :: "row list \<Rightarrow> Version list" where
  "ListVersions t = map row_Version (sort_key row_id t)"

section \<open>The worker and the world it acts on\<close>

text \<open>
  The world of a worker: the migrations table, the rest of the database (on which the
  migrations act), the number of readings of the clock so far, and the calls of the
  logging function \<^verbatim>\<open>LogFunc\<close> so far, each with its list of arguments. The clock
  and the logging function are outside the database: a rollback does not undo them.
\<close>

record 'u world =
  table :: "row list"
  udata :: 'u
  ticks :: nat
  logs :: "string list list"

text \<open>
  \<^verbatim>\<open>type Worker struct { LogFunc; schema; db; drv; initCalled }\<close>. Of the driver
  the worker keeps \<^verbatim>\<open>SupportsTransactionalDDL()\<close>; of the connection, what
  \<^verbatim>\<open>ExecContext\<close> does with a command text on the contents of the database; of the
  clock, the sequence of the readings of \<^verbatim>\<open>time.Now()\<close>. \<^verbatim>\<open>Worker.init\<close>
  creates the table if it does not exist; a table that does not exist yet is the empty
  list here, so \<^verbatim>\<open>init\<close> changes nothing and is left out.
\<close>

record 'u Worker =
  schema :: "'u Schema"
  SupportsTransactionalDDL :: bool
  ExecContext :: "string \<Rightarrow> 'u func"
  time_Now :: "nat \<Rightarrow> time"

definition schema_plans :: "'u Worker \<Rightarrow> 'u migrationPlan list" where
  "schema_plans m = (case plans (schema m) of None \<Rightarrow> [] | Some ps \<Rightarrow> ps)"

text \<open>\<^verbatim>\<open>func NewWorker(db *sql.DB, schema *Schema) (*Worker, error)\<close>\<close>

definition NewWorker ::
  "'u store \<Rightarrow> 'u Schema \<Rightarrow> bool \<Rightarrow> (string \<Rightarrow> 'u func) \<Rightarrow> (nat \<Rightarrow> time) \<Rightarrow> Error list + 'u Worker" where
  "NewWorker h s ddl exec now =
     (case Err h s of
        (Some errs, s') \<Rightarrow> Inl errs
      | (None, s') \<Rightarrow> Inr \<lparr>schema = s', SupportsTransactionalDDL = ddl, ExecContext = exec, time_Now = now\<rparr>)"

definition log :: "string list \<Rightarrow> 'u world \<Rightarrow> 'u world" where
  "log args w = w\<lparr>logs := logs w @ [args]\<rparr>"

text \<open>
  \<^verbatim>\<open>func (m *Worker) transact(ctx, fn func(tx *sql.Tx) error) error\<close>. The closure
  \<open>fn\<close> returns the values it leaves in the variables it captures, its error, and the
  world. On an error the transaction is rolled back: the table and the contents of the
  database are those from before.
\<close>

definition transact ::
  "('u world \<Rightarrow> 'a \<times> error option \<times> 'u world) \<Rightarrow> 'u world \<Rightarrow> 'a \<times> error option \<times> 'u world" where
  "transact fn w =
     (case fn w of
        (r, Some err, w') \<Rightarrow> (r, Some err, w'\<lparr>table := table w, udata := udata w\<rparr>)
      | (r, None, w') \<Rightarrow> (r, None, w'))"

text \<open>\<^verbatim>\<open>func (m *Worker) checkVersion(version VersionID) error\<close>\<close>

definition checkVersion :: "'u Worker \<Rightarrow> VersionID \<Rightarrow> error option" where
  "checkVersion m version =
     (if map_of (definitions (schema m)) version = None
      then Some (New (''invalid schema version id='' @ fmt_d version))
      else None)"

section \<open>The version summary\<close>

text \<open>\<^verbatim>\<open>type versionSummary struct { id; versions; applied; unapplied; vmap }\<close>\<close>

record 'u versionSummary =
  vs_id :: VersionID
  versions :: "Version list"
  applied :: "'u migrationPlan list"
  unapplied :: "'u migrationPlan list"
  vmap :: "VersionID \<rightharpoonup> Version"

text \<open>The text shown for an action: \<^verbatim>\<open>(DBFunc)\<close>, \<^verbatim>\<open>(TxFunc)\<close> or the command.\<close>

definition action_text :: "'u action \<Rightarrow> string" where
  "action_text a =
     (if dbFunc a \<noteq> None then ''(DBFunc)''
      else if txFunc a \<noteq> None then ''(TxFunc)''
      else sql a)"

definition with_text :: "'u migrationPlan \<Rightarrow> Version \<Rightarrow> Version" where
  "with_text plan ver = ver\<lparr>Up := action_text (up plan), Down := action_text (down plan)\<rparr>"

text \<open>
  The first loop of \<^verbatim>\<open>getVersionSummaryAllowFailed\<close>, over the versions listed:
  the highest id, and the map from id to version.
\<close>

definition listed_summary :: "Version list \<Rightarrow> 'u versionSummary" where
  "listed_summary vers =
     \<lparr>vs_id = fold (\<lambda>ver i. if ID ver > i then ID ver else i) vers 0,
      versions = vers, applied = [], unapplied = [],
      vmap = fold (\<lambda>ver vm. vm(ID ver \<mapsto> ver)) vers Map.empty\<rparr>"

text \<open>
  The body of the second loop, over the plans. \<open>ids\<close> is the set \<^verbatim>\<open>applied\<close> of
  the ids listed. The versions are held by pointer in the code, in \<^verbatim>\<open>vs.versions\<close>
  and in \<^verbatim>\<open>vs.vmap\<close>: the assignment to \<^verbatim>\<open>ver.Up\<close> and \<^verbatim>\<open>ver.Down\<close> shows
  in both. The ids of the rows are distinct (primary key), so the version that
  \<^verbatim>\<open>vs.vmap[plan.id]\<close> points to is the only listed one with that id.
\<close>

definition summary_step :: "VersionID list \<Rightarrow> 'u migrationPlan \<Rightarrow> 'u versionSummary \<Rightarrow> 'u versionSummary" where
  "summary_step ids plan vs =
     (if plan_id plan \<in> set ids
      then vs\<lparr>applied := applied vs @ [plan],
              versions := map (\<lambda>v. if ID v = plan_id plan then with_text plan v else v) (versions vs),
              vmap := (case vmap vs (plan_id plan) of
                         None \<Rightarrow> vmap vs
                       | Some ver \<Rightarrow> (vmap vs)(plan_id plan \<mapsto> with_text plan ver))\<rparr>
      else let ver = with_text plan \<lparr>ID = plan_id plan, AppliedAt = None, Failed = False,
                                     Locked = False, Up = [], Down = []\<rparr>
           in vs\<lparr>unapplied := unapplied vs @ [plan],
                 versions := versions vs @ [ver],
                 vmap := (vmap vs)(ID ver \<mapsto> ver)\<rparr>)"

text \<open>
  \<^verbatim>\<open>func (m *Worker) getVersionSummaryAllowFailed(ctx, tx) (*versionSummary, error)\<close>.
  The three calls of \<^verbatim>\<open>sort.Slice\<close> sort by id, descending for \<^verbatim>\<open>applied\<close>;
  the ids within each list are distinct for a compiled schema and a table with a
  primary key, so the result does not depend on the sorting algorithm.
\<close>

definition getVersionSummaryAllowFailed :: "'u Worker \<Rightarrow> 'u world \<Rightarrow> 'u versionSummary" where
  "getVersionSummaryAllowFailed m w =
     (let vers = ListVersions (table w);
          vs = fold (summary_step (map ID vers)) (schema_plans m) (listed_summary vers)
      in vs\<lparr>applied := sort_key (\<lambda>p. - plan_id p) (applied vs),
             unapplied := sort_key plan_id (unapplied vs),
             versions := sort_key ID (versions vs)\<rparr>)"

text \<open>\<^verbatim>\<open>func (m *Worker) getVersionSummary(ctx, tx) (*versionSummary, error)\<close>\<close>

definition getVersionSummary :: "'u Worker \<Rightarrow> 'u world \<Rightarrow> error + 'u versionSummary" where
  "getVersionSummary m w =
     (let vs = getVersionSummaryAllowFailed m w
      in if list_ex Failed (versions vs) then Inl (New ''previously failed'') else Inr vs)"

text \<open>
  \<^verbatim>\<open>func (vs *versionSummary) checkLocked(id VersionID) error\<close>. A missing entry of
  \<^verbatim>\<open>vs.vmap\<close> would be a nil pointer, and reading \<^verbatim>\<open>Locked\<close> through it a
  failure.
\<close>

fun checkLocked_loop :: "(VersionID \<rightharpoonup> Version) \<Rightarrow> 'u migrationPlan list \<Rightarrow> VersionID \<Rightarrow> error option" where
  "checkLocked_loop vm [] i = None"
| "checkLocked_loop vm (p # ps) i =
     (if plan_id p \<le> i then None
      else case vm (plan_id p) of
             None \<Rightarrow> Some (New ''invalid memory address or nil pointer dereference'')
           | Some ver \<Rightarrow>
               if Locked ver
               then Some (New (''database schema version locked id='' @ fmt_d (plan_id p)))
               else checkLocked_loop vm ps i)"

definition checkLocked :: "'u versionSummary \<Rightarrow> VersionID \<Rightarrow> error option" where
  "checkLocked vs i = checkLocked_loop (vmap vs) (applied vs) i"


section \<open>One step up, one step down\<close>

definition tick :: "'u world \<Rightarrow> 'u world" where
  "tick w = w\<lparr>ticks := ticks w + 1\<rparr>"

text \<open>
  \<^verbatim>\<open>func (m *Worker) upOneNoTx(ctx, id VersionID) error\<close>: a transaction that
  inserts the version as failed, the migration outside of any transaction, and a
  transaction that clears the failure.
\<close>

definition upOneNoTx :: "'u Worker \<Rightarrow> VersionID \<Rightarrow> 'u world \<Rightarrow> error option \<times> 'u world" where
  "upOneNoTx m i w =
     (case find (\<lambda>p. plan_id p = i) (schema_plans m) of
        None \<Rightarrow> (Some (New (''missing plan for version '' @ fmt_d i)), w)
      | Some plan \<Rightarrow>
          (case transact (\<lambda>w0.
                  let now = time_Now m (ticks w0); w1 = tick w0;
                      ver = \<lparr>ID = i, AppliedAt = Some now, Failed = True, Locked = False, Up = [], Down = []\<rparr>
                  in case InsertVersion ver (table w1) of
                       Inl err \<Rightarrow> ((), Some err, w1)
                     | Inr t \<Rightarrow> ((), None, w1\<lparr>table := t\<rparr>)) w of
             (_, Some err, w1) \<Rightarrow> (Some err, w1)
           | (_, None, w1) \<Rightarrow>
               (case (case dbFunc (up plan) of
                        Some upDB \<Rightarrow> upDB (udata w1)
                      | None \<Rightarrow> ExecContext m (sql (up plan)) (udata w1)) of
                  (Some err, u) \<Rightarrow> (Some (wrapf err (fmt_d i)), w1\<lparr>udata := u\<rparr>)
                | (None, u) \<Rightarrow>
                    (case transact (\<lambda>w2. ((), None, w2\<lparr>table := SetVersionFailed i False (table w2)\<rparr>))
                            (w1\<lparr>udata := u\<rparr>) of
                       (_, err, w3) \<Rightarrow> (err, w3)))))"

text \<open>
  The closure that \<^verbatim>\<open>upOne\<close> runs in a transaction. It leaves values in the
  captured variables \<^verbatim>\<open>more\<close>, \<^verbatim>\<open>noTx\<close> and \<^verbatim>\<open>id\<close>.
\<close>

definition upOne_insert ::
  "'u Worker \<Rightarrow> 'u migrationPlan \<Rightarrow> time \<Rightarrow> bool \<Rightarrow> 'u world \<Rightarrow> (bool \<times> bool \<times> VersionID) \<times> error option \<times> 'u world" where
  "upOne_insert m plan appliedAt more1 w =
     (let version = \<lparr>ID = plan_id plan, AppliedAt = Some appliedAt, Failed = False, Locked = False,
                     Up = [], Down = []\<rparr>
      in case InsertVersion version (table w) of
           Inl err \<Rightarrow> ((more1, False, 0), Some (wrapf err (fmt_d (plan_id plan))), w)
         | Inr t \<Rightarrow> ((more1, False, 0), None,
                     log [''migrated up version='' @ fmt_d (plan_id plan)] (w\<lparr>table := t\<rparr>)))"

definition upOne_tx :: "'u Worker \<Rightarrow> 'u world \<Rightarrow> (bool \<times> bool \<times> VersionID) \<times> error option \<times> 'u world" where
  "upOne_tx m w =
     (case getVersionSummary m w of
        Inl err \<Rightarrow> ((False, False, 0), Some err, w)
      | Inr vs \<Rightarrow>
          (case unapplied vs of
             [] \<Rightarrow> ((False, False, 0), None, w)
           | plan # rest \<Rightarrow>
               let appliedAt = time_Now m (ticks w); w1 = tick w;
                   more1 = (length (unapplied vs) > 1)
               in (case txFunc (up plan) of
                     Some upTx \<Rightarrow>
                       (case upTx (udata w1) of
                          (Some err, u) \<Rightarrow>
                            ((more1, False, 0), Some (wrapf err (fmt_d (plan_id plan))), w1\<lparr>udata := u\<rparr>)
                        | (None, u) \<Rightarrow> upOne_insert m plan appliedAt more1 (w1\<lparr>udata := u\<rparr>))
                   | None \<Rightarrow>
                       if \<not> SupportsTransactionalDDL m \<or> dbFunc (up plan) \<noteq> None
                       then ((more1, True, plan_id plan), None, w1)
                       else (case ExecContext m (sql (up plan)) (udata w1) of
                               (Some err, u) \<Rightarrow>
                                 ((more1, False, 0), Some (wrapf err (fmt_d (plan_id plan))), w1\<lparr>udata := u\<rparr>)
                             | (None, u) \<Rightarrow> upOne_insert m plan appliedAt more1 (w1\<lparr>udata := u\<rparr>)))))"

text \<open>\<^verbatim>\<open>func (m *Worker) upOne(ctx) (more bool, err error)\<close>\<close>

definition upOne :: "'u Worker \<Rightarrow> 'u world \<Rightarrow> bool \<times> error option \<times> 'u world" where
  "upOne m w =
     (case transact (upOne_tx m) w of
        ((more1, noTx, i), Some err, w1) \<Rightarrow> (more1, Some err, w1)
      | ((more1, noTx, i), None, w1) \<Rightarrow>
          if noTx
          then (case upOneNoTx m i w1 of
                  (Some err, w2) \<Rightarrow> (more1, Some err, w2)
                | (None, w2) \<Rightarrow> (more1, None, log [''migrated up version='' @ fmt_d i] w2))
          else (more1, None, w1))"

text \<open>
  \<^verbatim>\<open>func (m *Worker) downOneNoTx(ctx, id VersionID) error\<close>. The first transaction
  calls \<^verbatim>\<open>SetVersionFailed(ctx, tx, m.tableName(), id, false)\<close>, under the comment
  \<^verbatim>\<open>// mark version as failed\<close>.
\<close>

definition downOneNoTx :: "'u Worker \<Rightarrow> VersionID \<Rightarrow> 'u world \<Rightarrow> error option \<times> 'u world" where
  "downOneNoTx m i w =
     (case find (\<lambda>p. plan_id p = i) (schema_plans m) of
        None \<Rightarrow> (Some (New (''missing plan for version '' @ fmt_d i)), w)
      | Some plan \<Rightarrow>
          (case transact (\<lambda>w0. ((), None, w0\<lparr>table := SetVersionFailed i False (table w0)\<rparr>)) w of
             (_, Some err, w1) \<Rightarrow> (Some err, w1)
           | (_, None, w1) \<Rightarrow>
               (case (case dbFunc (down plan) of
                        Some downDB \<Rightarrow> downDB (udata w1)
                      | None \<Rightarrow> ExecContext m (sql (down plan)) (udata w1)) of
                  (Some err, u) \<Rightarrow> (Some (wrapf err (fmt_d i)), w1\<lparr>udata := u\<rparr>)
                | (None, u) \<Rightarrow>
                    (case transact (\<lambda>w2. ((), None, w2\<lparr>table := DeleteVersion i (table w2)\<rparr>))
                            (w1\<lparr>udata := u\<rparr>) of
                       (_, err, w3) \<Rightarrow> (err, w3)))))"

definition downOne_delete ::
  "'u migrationPlan \<Rightarrow> Version \<Rightarrow> bool \<Rightarrow> 'u world \<Rightarrow> (bool \<times> bool \<times> VersionID) \<times> error option \<times> 'u world" where
  "downOne_delete plan version more1 w =
     ((more1, False, 0), None,
      log [''migrated down version='' @ fmt_d (plan_id plan)]
        (w\<lparr>table := DeleteVersion (ID version) (table w)\<rparr>))"

text \<open>
  The closure that \<^verbatim>\<open>downOne\<close> runs in a transaction. The version of the plan is
  looked up in \<^verbatim>\<open>vs.versions\<close>; were it missing, reading \<^verbatim>\<open>version.Locked\<close>
  would fail on a nil pointer.
\<close>

definition downOne_tx :: "'u Worker \<Rightarrow> 'u world \<Rightarrow> (bool \<times> bool \<times> VersionID) \<times> error option \<times> 'u world" where
  "downOne_tx m w =
     (case getVersionSummary m w of
        Inl err \<Rightarrow> ((False, False, 0), Some err, w)
      | Inr vs \<Rightarrow>
          (case applied vs of
             [] \<Rightarrow> ((False, False, 0), None, w)
           | plan # rest \<Rightarrow>
               (case find (\<lambda>ver. ID ver = plan_id plan) (versions vs) of
                  None \<Rightarrow> ((False, False, 0), Some (New ''invalid memory address or nil pointer dereference''), w)
                | Some version \<Rightarrow>
                    if Locked version
                    then ((False, False, 0), None, log [''locked version='' @ fmt_d (ID version)] w)
                    else
                      let more1 = (length (applied vs) > 1)
                      in (case txFunc (down plan) of
                            Some downTx \<Rightarrow>
                              (case downTx (udata w) of
                                 (Some err, u) \<Rightarrow>
                                   ((more1, False, 0), Some (wrapf err (fmt_d (plan_id plan))), w\<lparr>udata := u\<rparr>)
                               | (None, u) \<Rightarrow> downOne_delete plan version more1 (w\<lparr>udata := u\<rparr>))
                          | None \<Rightarrow>
                              if \<not> SupportsTransactionalDDL m \<or> dbFunc (down plan) \<noteq> None
                              then ((more1, True, plan_id plan), None, w)
                              else (case ExecContext m (sql (down plan)) (udata w) of
                                      (Some err, u) \<Rightarrow>
                                        ((more1, False, 0), Some (wrapf err (fmt_d (plan_id plan))), w\<lparr>udata := u\<rparr>)
                                    | (None, u) \<Rightarrow> downOne_delete plan version more1 (w\<lparr>udata := u\<rparr>))))))"

text \<open>\<^verbatim>\<open>func (m *Worker) downOne(ctx) (more bool, err error)\<close>\<close>

definition downOne :: "'u Worker \<Rightarrow> 'u world \<Rightarrow> bool \<times> error option \<times> 'u world" where
  "downOne m w =
     (case transact (downOne_tx m) w of
        ((more1, noTx, i), Some err, w1) \<Rightarrow> (more1, Some err, w1)
      | ((more1, noTx, i), None, w1) \<Rightarrow>
          if noTx
          then (case downOneNoTx m i w1 of
                  (Some err, w2) \<Rightarrow> (False, Some err, w2)
                | (None, w2) \<Rightarrow> (more1, None, log [''migrated down version='' @ fmt_d i] w2))
          else (more1, None, w1))"

text \<open>
  \<^verbatim>\<open>func (m *Worker) finished(ctx, msg string) error\<close>: it logs the message with
  the highest applied version and its status. Its callers drop the error.
\<close>

definition finished :: "'u Worker \<Rightarrow> string \<Rightarrow> 'u world \<Rightarrow> 'u world" where
  "finished m msg w =
     (let vs = getVersionSummaryAllowFailed m w
      in case applied vs of
           [] \<Rightarrow> log [msg, ''version=0''] w
         | plan # rest \<Rightarrow>
             (case vmap vs (plan_id plan) of
                None \<Rightarrow> w
              | Some version \<Rightarrow>
                  log ([msg, ''version='' @ fmt_d (ID version)] @
                       (if Locked version then [''status=locked''] else []) @
                       (if Failed version then [''status=failed''] else [])) w))"



section \<open>What the summary holds\<close>

text \<open>
  A version without the texts of its migrations, and the version that the summary
  makes up for a plan that has no row: the id, no time of application, no flag.
\<close>

definition blank :: "Version \<Rightarrow> Version" where
  "blank v = v\<lparr>Up := [], Down := []\<rparr>"

definition placeholder :: "VersionID \<Rightarrow> Version" where
  "placeholder i = \<lparr>ID = i, AppliedAt = None, Failed = False, Locked = False, Up = [], Down = []\<rparr>"

lemma blank_with_text [simp]: "blank (with_text p v) = blank v"
  by (simp add: blank_def with_text_def)

lemma blank_row_Version [simp]: "blank (row_Version r) = row_Version r"
  by (simp add: blank_def row_Version_def)

lemma blank_fields [simp]:
  "ID (blank v) = ID v" "AppliedAt (blank v) = AppliedAt v"
  "Failed (blank v) = Failed v" "Locked (blank v) = Locked v"
  by (simp_all add: blank_def)

lemma with_text_fields [simp]:
  "ID (with_text p v) = ID v" "AppliedAt (with_text p v) = AppliedAt v"
  "Failed (with_text p v) = Failed v" "Locked (with_text p v) = Locked v"
  by (simp_all add: with_text_def)

lemma row_Version_fields [simp]:
  "ID (row_Version r) = row_id r" "AppliedAt (row_Version r) = Some (applied_at r)"
  "Failed (row_Version r) = failed r" "Locked (row_Version r) = locked r"
  by (simp_all add: row_Version_def)

lemma placeholder_fields [simp]:
  "ID (placeholder i) = i" "AppliedAt (placeholder i) = None"
  "Failed (placeholder i) = False" "Locked (placeholder i) = False"
  by (simp_all add: placeholder_def)

lemma set_ID_ListVersions [simp]: "set (map ID (ListVersions t)) = set (row_ids t)"
  by (simp add: ListVersions_def row_ids_def image_image)

lemma image_ID_ListVersions [simp]: "ID ` set (ListVersions t) = set (row_ids t)"
  using set_ID_ListVersions [of t] by simp

lemma fold_summary_applied:
  "applied (fold (summary_step ids) ps vs) = applied vs @ filter (\<lambda>p. plan_id p \<in> set ids) ps"
  by (induction ps arbitrary: vs) (simp_all add: summary_step_def Let_def)

lemma fold_summary_unapplied:
  "unapplied (fold (summary_step ids) ps vs) = unapplied vs @ filter (\<lambda>p. plan_id p \<notin> set ids) ps"
  by (induction ps arbitrary: vs) (simp_all add: summary_step_def Let_def)

lemma fold_summary_vs_id:
  "vs_id (fold (summary_step ids) ps vs) = vs_id vs"
  by (induction ps arbitrary: vs) (simp_all add: summary_step_def Let_def)

lemma fold_summary_versions:
  "map blank (versions (fold (summary_step ids) ps vs)) =
     map blank (versions vs) @ map (\<lambda>p. placeholder (plan_id p)) (filter (\<lambda>p. plan_id p \<notin> set ids) ps)"
proof (induction ps arbitrary: vs)
  case Nil
  then show ?case by simp
next
  case (Cons p ps)
  have "map blank (versions (summary_step ids p vs)) =
        map blank (versions vs) @ (if plan_id p \<in> set ids then [] else [placeholder (plan_id p)])"
    by (simp add: summary_step_def Let_def placeholder_def blank_def with_text_def)
  then show ?case using Cons.IH [of "summary_step ids p vs"] by simp
qed

lemma applied_summary:
  "applied (getVersionSummaryAllowFailed m w) =
     sort_key (\<lambda>p. - plan_id p) (filter (\<lambda>p. plan_id p \<in> set (row_ids (table w))) (schema_plans m))"
  by (simp add: getVersionSummaryAllowFailed_def Let_def fold_summary_applied listed_summary_def
      del: set_map)

lemma unapplied_summary:
  "unapplied (getVersionSummaryAllowFailed m w) =
     sort_key plan_id (filter (\<lambda>p. plan_id p \<notin> set (row_ids (table w))) (schema_plans m))"
  by (simp add: getVersionSummaryAllowFailed_def Let_def fold_summary_unapplied listed_summary_def
      del: set_map)

lemma map_insort_key:
  "(\<And>y. g (f y) = k y) \<Longrightarrow> map f (insort_key k x xs) = insort_key g (f x) (map f xs)"
  by (induction xs) simp_all

lemma map_sort_key:
  "(\<And>y. g (f y) = k y) \<Longrightarrow> map f (sort_key k xs) = sort_key g (map f xs)"
proof (induction xs)
  case Nil
  then show ?case by simp
next
  case (Cons a xs)
  have "map f (insort_key k a (sort_key k xs)) = insort_key g (f a) (map f (sort_key k xs))"
    using Cons.prems by (rule map_insort_key)
  then show ?case using Cons by simp
qed

lemma versions_summary:
  "map blank (versions (getVersionSummaryAllowFailed m w)) =
     sort_key ID (ListVersions (table w) @
       map (\<lambda>p. placeholder (plan_id p))
         (filter (\<lambda>p. plan_id p \<notin> set (row_ids (table w))) (schema_plans m)))"
proof -
  have "map blank (ListVersions (table w)) = ListVersions (table w)"
    by (simp add: ListVersions_def)
  then show ?thesis
    by (simp add: getVersionSummaryAllowFailed_def Let_def map_sort_key [where g = ID]
        fold_summary_versions listed_summary_def del: set_map)
qed

lemma failed_summary:
  "list_ex Failed (versions (getVersionSummaryAllowFailed m w)) \<longleftrightarrow> (\<exists>r\<in>set (table w). failed r)"
proof -
  have "list_ex Failed (versions (getVersionSummaryAllowFailed m w)) \<longleftrightarrow>
        list_ex Failed (map blank (versions (getVersionSummaryAllowFailed m w)))"
    by (simp add: list_ex_iff)
  also have "\<dots> \<longleftrightarrow> (\<exists>r\<in>set (table w). failed r)"
    unfolding versions_summary by (force simp: list_ex_iff ListVersions_def)
  finally show ?thesis .
qed

lemma getVersionSummary_eq:
  "getVersionSummary m w =
     (if \<exists>r\<in>set (table w). failed r then Inl (New ''previously failed'')
      else Inr (getVersionSummaryAllowFailed m w))"
  by (simp add: getVersionSummary_def Let_def failed_summary)


lemma fold_vmap_other:
  "i \<notin> ID ` set vers \<Longrightarrow> fold (\<lambda>ver vm. vm(ID ver \<mapsto> ver)) vers vm0 i = vm0 i"
  by (induction vers arbitrary: vm0) auto

lemma fold_vmap_distinct:
  "distinct (map ID vers) \<Longrightarrow> v \<in> set vers \<Longrightarrow>
   fold (\<lambda>ver vm. vm(ID ver \<mapsto> ver)) vers vm0 (ID v) = Some v"
proof (induction vers arbitrary: vm0)
  case Nil
  then show ?case by simp
next
  case (Cons x xs)
  show ?case
  proof (cases "v = x")
    case True
    have "ID x \<notin> ID ` set xs" using Cons.prems(1) by simp
    then have "fold (\<lambda>ver vm. vm(ID ver \<mapsto> ver)) xs (vm0(ID x \<mapsto> x)) (ID x) = (vm0(ID x \<mapsto> x)) (ID x)"
      by (rule fold_vmap_other)
    then show ?thesis using True by (simp add: fun_upd_same del: fun_upd_apply)
  next
    case False
    then show ?thesis using Cons by simp
  qed
qed

lemma fold_summary_vmap:
  assumes "\<exists>ver. vmap vs i = Some ver \<and> blank ver = v" "i \<in> set ids"
  shows "\<exists>ver. vmap (fold (summary_step ids) ps vs) i = Some ver \<and> blank ver = v"
  using assms
proof (induction ps arbitrary: vs)
  case Nil
  then show ?case by simp
next
  case (Cons p ps)
  have "\<exists>ver. vmap (summary_step ids p vs) i = Some ver \<and> blank ver = v"
    using Cons.prems by (auto simp: summary_step_def Let_def split: option.splits)
  then show ?case using Cons.IH [of "summary_step ids p vs"] Cons.prems(2) by simp
qed

lemma vmap_summary:
  assumes "distinct (row_ids (table w))" "r \<in> set (table w)"
  shows "\<exists>ver. vmap (getVersionSummaryAllowFailed m w) (row_id r) = Some ver \<and> blank ver = row_Version r"
proof -
  let ?vers = "ListVersions (table w)"
  have d: "distinct (map ID ?vers)"
    using assms(1) by (simp add: ListVersions_def row_ids_def comp_def distinct_map)
  have mem: "row_Version r \<in> set ?vers" using assms(2) by (simp add: ListVersions_def)
  have "vmap (listed_summary ?vers) (row_id r) = Some (row_Version r)"
    using fold_vmap_distinct [OF d mem] by (simp add: listed_summary_def)
  then have "\<exists>ver. vmap (listed_summary ?vers) (row_id r) = Some ver \<and> blank ver = row_Version r"
    using blank_row_Version by blast
  moreover have "row_id r \<in> set (map ID ?vers)"
    using assms(2) by (simp add: row_ids_def)
  ultimately show ?thesis
    using fold_summary_vmap [of "listed_summary ?vers" "row_id r" "row_Version r" "map ID ?vers" "schema_plans m"]
    by (simp add: getVersionSummaryAllowFailed_def Let_def)
qed

lemma find_summary:
  assumes "distinct (row_ids (table w))" "r \<in> set (table w)"
  shows "\<exists>ver. find (\<lambda>v. ID v = row_id r) (versions (getVersionSummaryAllowFailed m w)) = Some ver \<and>
               blank ver = row_Version r"
proof -
  let ?vs = "versions (getVersionSummaryAllowFailed m w)"
  have set_eq: "blank ` set ?vs =
      row_Version ` set (table w) \<union>
      (\<lambda>p. placeholder (plan_id p)) ` {p \<in> set (schema_plans m). plan_id p \<notin> set (row_ids (table w))}"
    using arg_cong [OF versions_summary [of m w], of set] by (simp add: ListVersions_def)
  have "row_Version r \<in> blank ` set ?vs" using assms(2) set_eq by blast
  then obtain v0 where v0: "v0 \<in> set ?vs" "blank v0 = row_Version r" by auto
  then have "ID v0 = row_id r" by (metis blank_fields(1) row_Version_fields(1))
  then have "find (\<lambda>v. ID v = row_id r) ?vs \<noteq> None"
    using v0(1) by (auto simp: find_None_iff)
  then obtain ver where ver: "find (\<lambda>v. ID v = row_id r) ?vs = Some ver" by auto
  then have ver_in: "ver \<in> set ?vs" and ver_id: "ID ver = row_id r"
    by (auto simp: find_Some_iff)
  have "blank ver \<in> row_Version ` set (table w) \<union>
      (\<lambda>p. placeholder (plan_id p)) ` {p \<in> set (schema_plans m). plan_id p \<notin> set (row_ids (table w))}"
    using ver_in set_eq by blast
  then have "blank ver = row_Version r"
  proof
    assume "blank ver \<in> row_Version ` set (table w)"
    then obtain r' where r': "r' \<in> set (table w)" "blank ver = row_Version r'" by auto
    then have "row_id r' = row_id r" using ver_id by (metis blank_fields(1) row_Version_fields(1))
    then have "r' = r"
      using assms r'(1) by (simp add: row_ids_def distinct_map inj_on_def)
    then show ?thesis using r'(2) by simp
  next
    assume "blank ver \<in> (\<lambda>p. placeholder (plan_id p)) `
        {p \<in> set (schema_plans m). plan_id p \<notin> set (row_ids (table w))}"
    then obtain p where "p \<in> set (schema_plans m)" "plan_id p \<notin> set (row_ids (table w))"
      "blank ver = placeholder (plan_id p)"
      by auto
    then have "row_id r \<notin> set (row_ids (table w))"
      using ver_id by (metis blank_fields(1) placeholder_fields(1))
    then show ?thesis using assms(2) by (simp add: row_ids_def)
  qed
  then show ?thesis using ver by simp
qed

lemma insort_key_snoc:
  "\<forall>y\<in>set ys. k y < k x \<Longrightarrow> insort_key k x ys = ys @ [x]"
  by (induction ys) auto

lemma sort_key_neg_strict:
  fixes k :: "'a \<Rightarrow> int"
  shows "sorted_wrt (<) (map k xs) \<Longrightarrow> sort_key (\<lambda>x. - k x) xs = rev xs"
proof (induction xs)
  case Nil
  then show ?case by simp
next
  case (Cons x xs)
  have "insort_key (\<lambda>x. - k x) x (rev xs) = rev xs @ [x]"
    using Cons.prems by (intro insort_key_snoc) auto
  then show ?case using Cons by simp
qed

text \<open>
  The worker of a compiled schema: the plans are in strictly ascending order of id and
  their ids are the ids defined. \<open>pending\<close> are the plans without a row, \<open>reached\<close>
  the plans with one, both in the order of the schema.
\<close>

definition valid_worker :: "'u Worker \<Rightarrow> bool" where
  "valid_worker m \<longleftrightarrow>
     sorted_wrt (<) (map plan_id (schema_plans m)) \<and>
     set (map plan_id (schema_plans m)) = set (map fst (definitions (schema m)))"

definition pending :: "'u Worker \<Rightarrow> row list \<Rightarrow> 'u migrationPlan list" where
  "pending m t = filter (\<lambda>p. plan_id p \<notin> set (row_ids t)) (schema_plans m)"

definition reached :: "'u Worker \<Rightarrow> row list \<Rightarrow> 'u migrationPlan list" where
  "reached m t = filter (\<lambda>p. plan_id p \<in> set (row_ids t)) (schema_plans m)"

lemma applied_valid:
  "valid_worker m \<Longrightarrow> applied (getVersionSummaryAllowFailed m w) = rev (reached m (table w))"
  unfolding applied_summary reached_def valid_worker_def
  by (intro sort_key_neg_strict) (simp add: sorted_wrt_map sorted_wrt_filter)

lemma unapplied_valid:
  "valid_worker m \<Longrightarrow> unapplied (getVersionSummaryAllowFailed m w) = pending m (table w)"
  unfolding unapplied_summary pending_def valid_worker_def
  by (intro sort_key_id_if_sorted sorted_filter) (simp add: strict_sorted_imp_sorted)


section \<open>What one step does\<close>

text \<open>
  The function that a step runs for an action: the transaction function if there is
  one, else the database function if there is one, else the command text. The step
  runs outside of a transaction when there is no transaction function and either the
  driver has no transactional DDL or there is a database function.
\<close>

definition effective_notx :: "'u Worker \<Rightarrow> 'u action \<Rightarrow> 'u func" where
  "effective_notx m a = (case dbFunc a of Some f \<Rightarrow> f | None \<Rightarrow> ExecContext m (sql a))"

definition effective :: "'u Worker \<Rightarrow> 'u action \<Rightarrow> 'u func" where
  "effective m a = (case txFunc a of Some f \<Rightarrow> f | None \<Rightarrow> effective_notx m a)"

definition outside_tx :: "'u Worker \<Rightarrow> 'u action \<Rightarrow> bool" where
  "outside_tx m a \<longleftrightarrow> txFunc a = None \<and> (\<not> SupportsTransactionalDDL m \<or> dbFunc a \<noteq> None)"

definition new_row :: "VersionID \<Rightarrow> time \<Rightarrow> bool \<Rightarrow> row" where
  "new_row i at f = \<lparr>row_id = i, applied_at = at, failed = f, locked = False\<rparr>"

lemma world_restore [simp]: "w\<lparr>table := table w, udata := udata w\<rparr> = w"
  by simp

lemma upOne_previously_failed:
  "\<exists>r\<in>set (table w). failed r \<Longrightarrow> upOne m w = (False, Some (New ''previously failed''), w)"
  by (simp add: upOne_def transact_def upOne_tx_def getVersionSummary_eq)

lemma upOne_nothing:
  "\<forall>r\<in>set (table w). \<not> failed r \<Longrightarrow> unapplied (getVersionSummaryAllowFailed m w) = [] \<Longrightarrow>
   upOne m w = (False, None, w)"
  by (simp add: upOne_def transact_def upOne_tx_def getVersionSummary_eq)

lemma unapplied_head_fresh:
  "unapplied (getVersionSummaryAllowFailed m w) = p # rest \<Longrightarrow>
   p \<in> set (schema_plans m) \<and> plan_id p \<notin> set (row_ids (table w))"
proof -
  assume "unapplied (getVersionSummaryAllowFailed m w) = p # rest"
  then have "p \<in> set (sort_key plan_id (filter (\<lambda>p. plan_id p \<notin> set (row_ids (table w))) (schema_plans m)))"
    unfolding unapplied_summary by simp
  then show ?thesis by simp
qed

lemma upOne_in_tx:
  assumes "\<forall>r\<in>set (table w). \<not> failed r"
    and "unapplied (getVersionSummaryAllowFailed m w) = p # rest"
    and "\<not> outside_tx m (up p)"
  shows "upOne m w =
     (case effective m (up p) (udata w) of
        (Some err, u) \<Rightarrow> (rest \<noteq> [], Some (wrapf err (fmt_d (plan_id p))), tick w)
      | (None, u) \<Rightarrow> (rest \<noteq> [], None,
          w\<lparr>table := table w @ [new_row (plan_id p) (time_Now m (ticks w)) False], udata := u,
            ticks := ticks w + 1, logs := logs w @ [[''migrated up version='' @ fmt_d (plan_id p)]]\<rparr>))"
proof -
  have fresh: "plan_id p \<notin> set (row_ids (table w))"
    using unapplied_head_fresh [OF assms(2)] by simp
  show ?thesis
    using assms fresh
    by (auto simp: upOne_def transact_def upOne_tx_def getVersionSummary_eq upOne_insert_def
        InsertVersion_def Let_def tick_def log_def effective_def effective_notx_def outside_tx_def
        new_row_def split: option.splits prod.splits)
qed

lemma SetVersionFailed_absent:
  "i \<notin> set (row_ids t) \<Longrightarrow> SetVersionFailed i b t = t"
  unfolding SetVersionFailed_def by (intro map_idI) (auto simp: row_ids_def)

lemma SetVersionFailed_unfailed:
  "\<forall>r\<in>set t. \<not> failed r \<Longrightarrow> SetVersionFailed i False t = t"
  unfolding SetVersionFailed_def by (intro map_idI) auto

lemma upOneNoTx_eq:
  assumes "find (\<lambda>q. plan_id q = i) (schema_plans m) = Some q"
    and "i \<notin> set (row_ids (table w))"
  shows "upOneNoTx m i w =
     (case effective_notx m (up q) (udata w) of
        (Some err, u) \<Rightarrow> (Some (wrapf err (fmt_d i)),
           w\<lparr>table := table w @ [new_row i (time_Now m (ticks w)) True], udata := u,
             ticks := ticks w + 1\<rparr>)
      | (None, u) \<Rightarrow> (None,
           w\<lparr>table := table w @ [new_row i (time_Now m (ticks w)) False], udata := u,
             ticks := ticks w + 1\<rparr>))"
proof -
  have "SetVersionFailed i False (table w) = table w"
    using assms(2) by (rule SetVersionFailed_absent)
  then show ?thesis
    using assms
    by (auto simp: upOneNoTx_def transact_def InsertVersion_def Let_def tick_def effective_notx_def
        new_row_def SetVersionFailed_def split: option.splits prod.splits)
qed

lemma upOne_outside_tx:
  assumes "\<forall>r\<in>set (table w). \<not> failed r"
    and "unapplied (getVersionSummaryAllowFailed m w) = p # rest"
    and "outside_tx m (up p)"
    and "find (\<lambda>q. plan_id q = plan_id p) (schema_plans m) = Some q"
  shows "upOne m w =
     (case effective_notx m (up q) (udata w) of
        (Some err, u) \<Rightarrow> (rest \<noteq> [], Some (wrapf err (fmt_d (plan_id p))),
           w\<lparr>table := table w @ [new_row (plan_id p) (time_Now m (ticks w + 1)) True], udata := u,
             ticks := ticks w + 2\<rparr>)
      | (None, u) \<Rightarrow> (rest \<noteq> [], None,
          w\<lparr>table := table w @ [new_row (plan_id p) (time_Now m (ticks w + 1)) False], udata := u,
            ticks := ticks w + 2, logs := logs w @ [[''migrated up version='' @ fmt_d (plan_id p)]]\<rparr>))"
proof -
  have fresh: "plan_id p \<notin> set (row_ids (table w))"
    using unapplied_head_fresh [OF assms(2)] by simp
  have tx: "transact (upOne_tx m) w = ((rest \<noteq> [], True, plan_id p), None, tick w)"
    using assms(1-3)
    by (auto simp: transact_def upOne_tx_def getVersionSummary_eq Let_def outside_tx_def)
  have notx: "upOneNoTx m (plan_id p) (tick w) =
     (case effective_notx m (up q) (udata w) of
        (Some err, u) \<Rightarrow> (Some (wrapf err (fmt_d (plan_id p))),
           w\<lparr>table := table w @ [new_row (plan_id p) (time_Now m (ticks w + 1)) True], udata := u,
             ticks := ticks w + 2\<rparr>)
      | (None, u) \<Rightarrow> (None,
           w\<lparr>table := table w @ [new_row (plan_id p) (time_Now m (ticks w + 1)) False], udata := u,
             ticks := ticks w + 2\<rparr>))"
    using upOneNoTx_eq [of "plan_id p" m q "tick w"] assms(4) fresh
    by (simp add: tick_def split: prod.splits option.splits)
  show ?thesis
    unfolding upOne_def tx by (simp add: notx log_def split: prod.splits option.splits)
qed


lemma downOne_previously_failed:
  "\<exists>r\<in>set (table w). failed r \<Longrightarrow> downOne m w = (False, Some (New ''previously failed''), w)"
  by (simp add: downOne_def transact_def downOne_tx_def getVersionSummary_eq)

lemma downOne_nothing:
  "\<forall>r\<in>set (table w). \<not> failed r \<Longrightarrow> applied (getVersionSummaryAllowFailed m w) = [] \<Longrightarrow>
   downOne m w = (False, None, w)"
  by (simp add: downOne_def transact_def downOne_tx_def getVersionSummary_eq)

lemma applied_head_row:
  assumes "applied (getVersionSummaryAllowFailed m w) = p # rest"
  shows "p \<in> set (schema_plans m) \<and> (\<exists>r\<in>set (table w). row_id r = plan_id p)"
proof -
  have "p \<in> set (sort_key (\<lambda>p. - plan_id p)
      (filter (\<lambda>p. plan_id p \<in> set (row_ids (table w))) (schema_plans m)))"
    using assms unfolding applied_summary by simp
  then show ?thesis by (auto simp: row_ids_def)
qed

lemma find_version_of_row:
  assumes "distinct (row_ids (table w))" "r \<in> set (table w)" "row_id r = i"
  obtains ver where "find (\<lambda>v. ID v = i) (versions (getVersionSummaryAllowFailed m w)) = Some ver"
    "ID ver = i" "Locked ver = locked r" "Failed ver = failed r"
proof -
  obtain ver where ver: "find (\<lambda>v. ID v = row_id r) (versions (getVersionSummaryAllowFailed m w)) = Some ver"
    "blank ver = row_Version r"
    using find_summary [OF assms(1,2)] by blast
  have "ID ver = i" "Locked ver = locked r" "Failed ver = failed r"
    using ver(2) assms(3)
    by (metis blank_fields(1) row_Version_fields(1), metis blank_fields(4) row_Version_fields(4),
        metis blank_fields(3) row_Version_fields(3))
  then show ?thesis using that ver(1) assms(3) by simp
qed

lemma downOne_locked:
  assumes "\<forall>r\<in>set (table w). \<not> failed r" "distinct (row_ids (table w))"
    and "applied (getVersionSummaryAllowFailed m w) = p # rest"
    and "r \<in> set (table w)" "row_id r = plan_id p" "locked r"
  shows "downOne m w = (False, None, log [''locked version='' @ fmt_d (plan_id p)] w)"
proof -
  obtain ver where "find (\<lambda>v. ID v = plan_id p) (versions (getVersionSummaryAllowFailed m w)) = Some ver"
    "ID ver = plan_id p" "Locked ver = locked r"
    using find_version_of_row [OF assms(2,4,5)] by blast
  then show ?thesis
    using assms(1,3,6)
    by (simp add: downOne_def transact_def downOne_tx_def getVersionSummary_eq)
qed

lemma downOne_in_tx:
  assumes "\<forall>r\<in>set (table w). \<not> failed r" "distinct (row_ids (table w))"
    and "applied (getVersionSummaryAllowFailed m w) = p # rest"
    and "r \<in> set (table w)" "row_id r = plan_id p" "\<not> locked r"
    and "\<not> outside_tx m (down p)"
  shows "downOne m w =
     (case effective m (down p) (udata w) of
        (Some err, u) \<Rightarrow> (rest \<noteq> [], Some (wrapf err (fmt_d (plan_id p))), w)
      | (None, u) \<Rightarrow> (rest \<noteq> [], None,
          w\<lparr>table := DeleteVersion (plan_id p) (table w), udata := u,
            logs := logs w @ [[''migrated down version='' @ fmt_d (plan_id p)]]\<rparr>))"
proof -
  obtain ver where "find (\<lambda>v. ID v = plan_id p) (versions (getVersionSummaryAllowFailed m w)) = Some ver"
    "ID ver = plan_id p" "Locked ver = locked r"
    using find_version_of_row [OF assms(2,4,5)] by blast
  then show ?thesis
    using assms(1,3,6,7)
    by (auto simp: downOne_def transact_def downOne_tx_def getVersionSummary_eq downOne_delete_def
        Let_def log_def effective_def effective_notx_def outside_tx_def
        split: option.splits prod.splits)
qed

lemma downOneNoTx_eq:
  assumes "find (\<lambda>q. plan_id q = i) (schema_plans m) = Some q"
  shows "downOneNoTx m i w =
     (case effective_notx m (down q) (udata w) of
        (Some err, u) \<Rightarrow> (Some (wrapf err (fmt_d i)),
           w\<lparr>table := SetVersionFailed i False (table w), udata := u\<rparr>)
      | (None, u) \<Rightarrow> (None,
           w\<lparr>table := DeleteVersion i (SetVersionFailed i False (table w)), udata := u\<rparr>))"
  using assms
  by (auto simp: downOneNoTx_def transact_def Let_def effective_notx_def split: option.splits prod.splits)

lemma downOne_outside_tx:
  assumes "\<forall>r\<in>set (table w). \<not> failed r" "distinct (row_ids (table w))"
    and "applied (getVersionSummaryAllowFailed m w) = p # rest"
    and "r \<in> set (table w)" "row_id r = plan_id p" "\<not> locked r"
    and "outside_tx m (down p)"
    and "find (\<lambda>q. plan_id q = plan_id p) (schema_plans m) = Some q"
  shows "downOne m w =
     (case effective_notx m (down q) (udata w) of
        (Some err, u) \<Rightarrow> (False, Some (wrapf err (fmt_d (plan_id p))), w\<lparr>udata := u\<rparr>)
      | (None, u) \<Rightarrow> (rest \<noteq> [], None,
          w\<lparr>table := DeleteVersion (plan_id p) (table w), udata := u,
            logs := logs w @ [[''migrated down version='' @ fmt_d (plan_id p)]]\<rparr>))"
proof -
  obtain ver where "find (\<lambda>v. ID v = plan_id p) (versions (getVersionSummaryAllowFailed m w)) = Some ver"
    "ID ver = plan_id p" "Locked ver = locked r"
    using find_version_of_row [OF assms(2,4,5)] by blast
  then have tx: "transact (downOne_tx m) w = ((rest \<noteq> [], True, plan_id p), None, w)"
    using assms(1,3,6,7)
    by (auto simp: transact_def downOne_tx_def getVersionSummary_eq Let_def outside_tx_def)
  have same: "SetVersionFailed (plan_id p) False (table w) = table w"
    using assms(1) by (rule SetVersionFailed_unfailed)
  show ?thesis
    unfolding downOne_def tx
    using downOneNoTx_eq [of "plan_id p" m q w] assms(8)
    by (simp add: same log_def split: prod.splits option.splits)
qed


lemma find_plan_exists:
  "p \<in> set ps \<Longrightarrow> \<exists>q. find (\<lambda>q. plan_id q = plan_id p) ps = Some q"
  by (cases "find (\<lambda>q. plan_id q = plan_id p) ps") (auto simp: find_None_iff)

lemma upOne_adds_head:
  assumes "upOne m w = (more1, None, w')"
    and "unapplied (getVersionSummaryAllowFailed m w) = p # rest"
  shows "set (row_ids (table w')) = insert (plan_id p) (set (row_ids (table w)))"
proof -
  have nofail: "\<forall>r\<in>set (table w). \<not> failed r"
    using assms(1) upOne_previously_failed [of w m] by auto
  show ?thesis
  proof (cases "outside_tx m (up p)")
    case False
    show ?thesis
      using assms(1) upOne_in_tx [OF nofail assms(2) False]
      by (auto simp: row_ids_def new_row_def split: prod.splits option.splits)
  next
    case True
    obtain q where q: "find (\<lambda>q. plan_id q = plan_id p) (schema_plans m) = Some q"
      using find_plan_exists unapplied_head_fresh [OF assms(2)] by blast
    show ?thesis
      using assms(1) upOne_outside_tx [OF nofail assms(2) True q]
      by (auto simp: row_ids_def new_row_def split: prod.splits option.splits)
  qed
qed

lemma upOne_progress:
  assumes "upOne m w = (True, None, w')"
  shows "length (pending m (table w')) < length (pending m (table w))"
proof -
  have nofail: "\<forall>r\<in>set (table w). \<not> failed r"
    using assms upOne_previously_failed [of w m] by auto
  obtain p rest where head: "unapplied (getVersionSummaryAllowFailed m w) = p # rest"
    using assms upOne_nothing [OF nofail, of m]
    by (cases "unapplied (getVersionSummaryAllowFailed m w)") auto
  have ids: "set (row_ids (table w')) = insert (plan_id p) (set (row_ids (table w)))"
    using upOne_adds_head [OF assms head] .
  have p: "p \<in> set (pending m (table w))"
    using unapplied_head_fresh [OF head] by (simp add: pending_def)
  have "pending m (table w') = filter (\<lambda>q. plan_id q \<noteq> plan_id p) (pending m (table w))"
    by (auto simp: pending_def ids intro: filter_cong)
  moreover have "length (filter (\<lambda>q. plan_id q \<noteq> plan_id p) (pending m (table w))) <
      length (pending m (table w))"
    using p by (intro length_filter_less [of p]) auto
  ultimately show ?thesis by simp
qed

lemma find_ID: "find (\<lambda>v. ID v = i) vs = Some ver \<Longrightarrow> ID ver = i"
  by (auto simp: find_Some_iff)

lemma set_row_ids_DeleteVersion [simp]:
  "set (row_ids (DeleteVersion i t)) = set (row_ids t) - {i}"
  by (auto simp: row_ids_def DeleteVersion_def)

lemma row_ids_SetVersionFailed [simp]: "row_ids (SetVersionFailed i b t) = row_ids t"
  by (simp add: row_ids_def SetVersionFailed_def comp_def)

lemma row_ids_SetVersionLocked [simp]: "row_ids (SetVersionLocked i b t) = row_ids t"
  by (simp add: row_ids_def SetVersionLocked_def comp_def)

lemma downOne_removes_head:
  assumes "downOne m w = (True, None, w')"
    and "applied (getVersionSummaryAllowFailed m w) = p # rest"
  shows "set (row_ids (table w')) = set (row_ids (table w)) - {plan_id p}"
proof -
  have nofail: "\<forall>r\<in>set (table w). \<not> failed r"
    using assms(1) downOne_previously_failed [of w m] by auto
  obtain q where q: "find (\<lambda>q. plan_id q = plan_id p) (schema_plans m) = Some q"
    using find_plan_exists applied_head_row [OF assms(2)] by blast
  show ?thesis
  proof (cases "find (\<lambda>ver. ID ver = plan_id p) (versions (getVersionSummaryAllowFailed m w))")
    case None
    then have "downOne m w = (False, Some (New ''invalid memory address or nil pointer dereference''), w)"
      using nofail assms(2) by (simp add: downOne_def transact_def downOne_tx_def getVersionSummary_eq)
    then show ?thesis using assms(1) by simp
  next
    case (Some ver)
    then have "ID ver = plan_id p" by (rule find_ID)
    then show ?thesis
      using assms nofail Some downOneNoTx_eq [OF q, of w]
      by (auto simp: downOne_def transact_def downOne_tx_def getVersionSummary_eq downOne_delete_def
          Let_def log_def split: option.splits prod.splits if_splits)
  qed
qed

lemma downOne_progress:
  assumes "downOne m w = (True, None, w')"
  shows "length (reached m (table w')) < length (reached m (table w))"
proof -
  have nofail: "\<forall>r\<in>set (table w). \<not> failed r"
    using assms downOne_previously_failed [of w m] by auto
  obtain p rest where head: "applied (getVersionSummaryAllowFailed m w) = p # rest"
    using assms downOne_nothing [OF nofail, of m]
    by (cases "applied (getVersionSummaryAllowFailed m w)") auto
  have ids: "set (row_ids (table w')) = set (row_ids (table w)) - {plan_id p}"
    using downOne_removes_head [OF assms head] .
  have p: "p \<in> set (reached m (table w))"
    using applied_head_row [OF head] by (force simp: reached_def row_ids_def)
  have "reached m (table w') = filter (\<lambda>q. plan_id q \<noteq> plan_id p) (reached m (table w))"
    by (auto simp: reached_def ids intro: filter_cong)
  moreover have "length (filter (\<lambda>q. plan_id q \<noteq> plan_id p) (reached m (table w))) <
      length (reached m (table w))"
    using p by (intro length_filter_less [of p]) auto
  ultimately show ?thesis by simp
qed



section \<open>The operations of the worker\<close>

text \<open>
  \<^verbatim>\<open>func (m *Worker) Up(ctx) error\<close>: the loop over \<^verbatim>\<open>upOne\<close>. It ends because
  each round that reports more work has given a row to a plan that had none.
\<close>

function Up_loop :: "'u Worker \<Rightarrow> 'u world \<Rightarrow> error option \<times> 'u world" where
  "Up_loop m w =
     (case upOne m w of
        (more1, Some err, w') \<Rightarrow> (Some err, w')
      | (more1, None, w') \<Rightarrow>
          if more1 then Up_loop m w' else (None, finished m ''migrate up finished'' w'))"
  by pat_completeness auto
termination
  by (relation "measure (\<lambda>(m, w). length (pending m (table w)))") (auto dest: upOne_progress [OF sym])

declare Up_loop.simps [simp del]

definition Worker_Up :: "'u Worker \<Rightarrow> 'u world \<Rightarrow> error option \<times> 'u world" where
  "Worker_Up m w = Up_loop m w"

text \<open>
  \<^verbatim>\<open>func (m *Worker) Down(ctx) error\<close>: the loop over \<^verbatim>\<open>downOne\<close>. Each round
  that reports more work has deleted the row of a plan.
\<close>

function Down_loop :: "'u Worker \<Rightarrow> 'u world \<Rightarrow> error option \<times> 'u world" where
  "Down_loop m w =
     (case downOne m w of
        (more1, Some err, w') \<Rightarrow> (Some err, w')
      | (more1, None, w') \<Rightarrow>
          if more1 then Down_loop m w' else (None, finished m ''migrate down finished'' w'))"
  by pat_completeness auto
termination
  by (relation "measure (\<lambda>(m, w). length (reached m (table w)))") (auto dest: downOne_progress [OF sym])

declare Down_loop.simps [simp del]

definition Worker_Down :: "'u Worker \<Rightarrow> 'u world \<Rightarrow> error option \<times> 'u world" where
  "Worker_Down m w = Down_loop m w"

text \<open>
  The closure that \<^verbatim>\<open>gotoOne\<close> runs in a transaction: it leaves the counts
  \<^verbatim>\<open>upCount\<close> and \<^verbatim>\<open>downCount\<close>. Each counting loop stops at the first plan
  on the other side of the target.
\<close>

definition gotoOne_tx :: "'u Worker \<Rightarrow> VersionID \<Rightarrow> 'u world \<Rightarrow> (nat \<times> nat) \<times> error option \<times> 'u world" where
  "gotoOne_tx m i w =
     (case getVersionSummary m w of
        Inl err \<Rightarrow> ((0, 0), Some err, w)
      | Inr vs \<Rightarrow>
          (case checkLocked vs i of
             Some err \<Rightarrow> ((0, 0), Some err, w)
           | None \<Rightarrow>
               let down_count = length (takeWhile (\<lambda>p. \<not> plan_id p \<le> i) (applied vs));
                   up_count = length (takeWhile (\<lambda>p. \<not> plan_id p > i) (unapplied vs))
               in ((up_count, down_count), None, w)))"

text \<open>\<^verbatim>\<open>func (m *Worker) gotoOne(ctx, id VersionID) (more bool, err error)\<close>\<close>

definition gotoOne :: "'u Worker \<Rightarrow> VersionID \<Rightarrow> 'u world \<Rightarrow> bool \<times> error option \<times> 'u world" where
  "gotoOne m i w =
     (case transact (gotoOne_tx m i) w of
        ((up_count, down_count), Some err, w1) \<Rightarrow> (False, Some err, w1)
      | ((up_count, down_count), None, w1) \<Rightarrow>
          if down_count > 0
          then (case downOne m w1 of
                  (more1, Some err, w2) \<Rightarrow> (False, Some err, w2)
                | (more1, None, w2) \<Rightarrow> (up_count + (down_count - 1) > 0, None, w2))
          else if up_count > 0
          then (case upOne m w1 of
                  (more1, Some err, w2) \<Rightarrow> (False, Some err, w2)
                | (more1, None, w2) \<Rightarrow> ((up_count - 1) + down_count > 0, None, w2))
          else (up_count + down_count > 0, None, w1))"

text \<open>
  \<^verbatim>\<open>func (m *Worker) Goto(ctx, id VersionID) error\<close>. A round of the loop makes
  progress only if \<^verbatim>\<open>downOne\<close> finds unlocked the version that
  \<^verbatim>\<open>checkLocked\<close> found unlocked; the two look the version up in different
  places, which agree when the ids of the rows are distinct. The loop is therefore a
  partial function, \<open>None\<close> when it does not end, and that it ends on a table with
  distinct ids is proved below.
\<close>

partial_function (option) Goto_loop ::
  "'u Worker \<Rightarrow> VersionID \<Rightarrow> 'u world \<Rightarrow> (error option \<times> 'u world) option" where
  "Goto_loop m i w =
     (case gotoOne m i w of
        (more1, Some err, w') \<Rightarrow> Some (Some err, w')
      | (more1, None, w') \<Rightarrow>
          if more1 then Goto_loop m i w' else Some (None, finished m ''migrate goto finished'' w'))"

definition Worker_Goto :: "'u Worker \<Rightarrow> VersionID \<Rightarrow> 'u world \<Rightarrow> (error option \<times> 'u world) option" where
  "Worker_Goto m i w =
     (case (if i \<noteq> 0 then checkVersion m i else None) of
        Some err \<Rightarrow> Some (Some err, w)
      | None \<Rightarrow> Goto_loop m i w)"

text \<open>\<^verbatim>\<open>func (m *Worker) lockHelper(ctx, id VersionID, verb string, lock bool) error\<close>\<close>

definition lockHelper :: "'u Worker \<Rightarrow> VersionID \<Rightarrow> string \<Rightarrow> bool \<Rightarrow> 'u world \<Rightarrow> error option \<times> 'u world" where
  "lockHelper m i verb lock w =
     (case checkVersion m i of
        Some err \<Rightarrow> (Some err, w)
      | None \<Rightarrow>
          (case transact (\<lambda>w0.
                  case getVersionSummary m w0 of
                    Inl err \<Rightarrow> ((), Some err, w0)
                  | Inr vs \<Rightarrow>
                      if list_ex (\<lambda>plan. plan_id plan = i) (applied vs)
                      then ((), None, w0\<lparr>table := SetVersionLocked i lock (table w0)\<rparr>)
                      else ((), Some (New (''cannot '' @ verb @ '' unapplied version id='' @ fmt_d i)), w0)) w of
             (_, Some err, w1) \<Rightarrow> (Some err, w1)
           | (_, None, w1) \<Rightarrow> (None, log [verb @ '' version='' @ fmt_d i] w1)))"

definition Worker_Lock :: "'u Worker \<Rightarrow> VersionID \<Rightarrow> 'u world \<Rightarrow> error option \<times> 'u world" where
  "Worker_Lock m i w = lockHelper m i ''lock'' True w"

definition Worker_Unlock :: "'u Worker \<Rightarrow> VersionID \<Rightarrow> 'u world \<Rightarrow> error option \<times> 'u world" where
  "Worker_Unlock m i w = lockHelper m i ''unlock'' False w"

text \<open>
  The last loop of \<^verbatim>\<open>Force\<close>, over the applied plans: it deletes the versions
  above the target and clears the failure of the others.
\<close>

fun Force_loop ::
  "VersionID \<Rightarrow> (VersionID \<rightharpoonup> Version) \<Rightarrow> 'u migrationPlan list \<Rightarrow> 'u world \<Rightarrow> error option \<times> 'u world" where
  "Force_loop i vm [] w = (None, w)"
| "Force_loop i vm (plan # ps) w =
     (case vm (plan_id plan) of
        None \<Rightarrow> (Some (New ''invalid memory address or nil pointer dereference''), w)
      | Some ver \<Rightarrow>
          if ID ver > i
          then Force_loop i vm ps
                 (log [''deleted database schema version id='' @ fmt_d (ID ver)]
                    (w\<lparr>table := DeleteVersion (ID ver) (table w)\<rparr>))
          else if Failed ver
          then Force_loop i vm ps
                 (log [''cleared database schema version failure id='' @ fmt_d i]
                    (w\<lparr>table := SetVersionFailed (ID ver) False (table w)\<rparr>))
          else Force_loop i vm ps w)"

text \<open>\<^verbatim>\<open>func (m *Worker) Force(ctx, id VersionID) error\<close>\<close>

definition Worker_Force :: "'u Worker \<Rightarrow> VersionID \<Rightarrow> 'u world \<Rightarrow> error option \<times> 'u world" where
  "Worker_Force m i w =
     (case (if i \<noteq> 0 then checkVersion m i else None) of
        Some err \<Rightarrow> (Some err, w)
      | None \<Rightarrow>
          (case transact (\<lambda>w0.
                  let vs = getVersionSummaryAllowFailed m w0
                  in case checkLocked vs i of
                       Some err \<Rightarrow> ((), Some err, w0)
                     | None \<Rightarrow>
                         if i \<noteq> 0 \<and> \<not> list_ex (\<lambda>plan. plan_id plan = i) (applied vs)
                         then ((), Some (New (''cannot force unapplied version id='' @ fmt_d i)), w0)
                         else (case Force_loop i (vmap vs) (applied vs) w0 of
                                 (err, w1) \<Rightarrow> ((), err, w1))) w of
             (_, Some err, w1) \<Rightarrow> (Some err, w1)
           | (_, None, w1) \<Rightarrow> (None, finished m ''database schema version forced'' w1)))"

text \<open>
  \<^verbatim>\<open>func (m *Worker) Version(ctx, id VersionID) (*Version, error)\<close> and
  \<^verbatim>\<open>func (m *Worker) Versions(ctx) ([]*Version, error)\<close> read the summary in a
  transaction and change nothing.
\<close>

definition Worker_Version :: "'u Worker \<Rightarrow> VersionID \<Rightarrow> 'u world \<Rightarrow> error + Version" where
  "Worker_Version m i w =
     (case checkVersion m i of
        Some err \<Rightarrow> Inl err
      | None \<Rightarrow>
          (case find (\<lambda>ver. ID ver = i) (versions (getVersionSummaryAllowFailed m w)) of
             Some ver \<Rightarrow> Inr ver
           | None \<Rightarrow> Inl (New (''cannot find version '' @ fmt_d i))))"

definition Worker_Versions :: "'u Worker \<Rightarrow> 'u world \<Rightarrow> error + Version list" where
  "Worker_Versions m w = Inr (versions (getVersionSummaryAllowFailed m w))"

end
